theory Spec2Isabelle
  imports Complex_Main "HOL-Library.Multiset"
begin

section \<open>JavaScript numbers\<close>

text \<open>
  Every number of the program is an IEEE 754 double. The counters and their sums only ever
  hold the doubles that \<open>parseInt\<close> returns and that addition makes of them: integers,
  the two infinities and \<open>NaN\<close>. \<open>Finite n\<close> stands for the double of value \<open>n\<close>; the
  operations below only return such values for integers that a double can hold. The two
  zeros are not distinguished: the modelled code never divides by a zero and never prints
  the sign of one.
\<close>

datatype jsNumber = Finite int | PosInfinity | NegInfinity | NaN

text \<open>The number of binary digits of a natural number.\<close>

fun bitLength :: "nat \<Rightarrow> nat" where
  "bitLength n = (if n = 0 then 0 else Suc (bitLength (n div 2)))"

declare bitLength.simps [simp del]

text \<open>
  The double nearest to an integer, ties to the even significand: below \<open>2^53\<close> every
  integer is a double; from there on the doubles are the multiples of the power of two \<open>q\<close>
  that leaves 53 significant bits, and a result of \<open>2^1024\<close> or more overflows to an infinity.
\<close>

definition roundToDouble :: "int \<Rightarrow> jsNumber" where
  "roundToDouble n =
     (let a = nat \<bar>n\<bar> in
      if a < 2 ^ 53 then Finite n
      else
        let q = 2 ^ (bitLength a - 53);
            lo = a div q;
            rest = a mod q;
            m = (if 2 * rest < q then lo
                 else if q < 2 * rest then lo + 1
                 else if even lo then lo else lo + 1)
        in if 2 ^ 1024 \<le> m * q then (if 0 < n then PosInfinity else NegInfinity)
           else Finite (sgn n * int (m * q)))"

text \<open>\<open>x + y\<close>, \<open>-x\<close>, \<open>x - y\<close>, \<open>x > 0\<close> and \<open>x <= y\<close> on these numbers.\<close>

fun jsAdd :: "jsNumber \<Rightarrow> jsNumber \<Rightarrow> jsNumber" where
  "jsAdd (Finite a) (Finite b) = roundToDouble (a + b)"
| "jsAdd NaN y = NaN"
| "jsAdd x NaN = NaN"
| "jsAdd PosInfinity NegInfinity = NaN"
| "jsAdd NegInfinity PosInfinity = NaN"
| "jsAdd PosInfinity y = PosInfinity"
| "jsAdd x PosInfinity = PosInfinity"
| "jsAdd NegInfinity y = NegInfinity"
| "jsAdd x NegInfinity = NegInfinity"

fun jsNeg :: "jsNumber \<Rightarrow> jsNumber" where
  "jsNeg (Finite n) = Finite (- n)"
| "jsNeg PosInfinity = NegInfinity"
| "jsNeg NegInfinity = PosInfinity"
| "jsNeg NaN = NaN"

definition jsSub :: "jsNumber \<Rightarrow> jsNumber \<Rightarrow> jsNumber" where
  "jsSub x y = jsAdd x (jsNeg y)"

fun jsGt0 :: "jsNumber \<Rightarrow> bool" where
  "jsGt0 (Finite n) = (0 < n)"
| "jsGt0 PosInfinity = True"
| "jsGt0 NegInfinity = False"
| "jsGt0 NaN = False"

fun jsLe :: "jsNumber \<Rightarrow> jsNumber \<Rightarrow> bool" where
  "jsLe (Finite a) (Finite b) = (a \<le> b)"
| "jsLe NaN y = False"
| "jsLe x NaN = False"
| "jsLe NegInfinity y = True"
| "jsLe x PosInfinity = True"
| "jsLe x NegInfinity = False"
| "jsLe PosInfinity y = False"

text \<open>
  The rates are doubles too, and not integers. A finite quotient or product is modelled as
  the exact real number; the double that the code computes is the one nearest to it. What is
  modelled of the floating point is what the guard of the rate is about: a division by zero
  gives an infinity or \<open>NaN\<close>, infinity over infinity gives \<open>NaN\<close>, and a product that
  leaves the range of the doubles gives an infinity.
\<close>

datatype jsRatio = Ratio real | RatioPosInfinity | RatioNegInfinity | RatioNaN

fun jsDivide :: "jsNumber \<Rightarrow> jsNumber \<Rightarrow> jsRatio" where
  "jsDivide (Finite a) (Finite b) =
     (if b = 0 then (if a = 0 then RatioNaN else if 0 < a then RatioPosInfinity else RatioNegInfinity)
      else Ratio (real_of_int a / real_of_int b))"
| "jsDivide NaN y = RatioNaN"
| "jsDivide x NaN = RatioNaN"
| "jsDivide (Finite a) y = Ratio 0"
| "jsDivide PosInfinity (Finite b) = (if 0 \<le> b then RatioPosInfinity else RatioNegInfinity)"
| "jsDivide NegInfinity (Finite b) = (if 0 \<le> b then RatioNegInfinity else RatioPosInfinity)"
| "jsDivide PosInfinity y = RatioNaN"
| "jsDivide NegInfinity y = RatioNaN"

fun times100 :: "jsRatio \<Rightarrow> jsRatio" where
  "times100 (Ratio x) =
     (if 2 ^ 1024 - 2 ^ 970 \<le> x * 100 then RatioPosInfinity
      else if x * 100 \<le> - (2 ^ 1024 - 2 ^ 970) then RatioNegInfinity
      else Ratio (x * 100))"
| "times100 RatioPosInfinity = RatioPosInfinity"
| "times100 RatioNegInfinity = RatioNegInfinity"
| "times100 RatioNaN = RatioNaN"

section \<open>Data model (src/web-app/src/types, src/web-app/src/utils/dataProcessor.ts)\<close>

text \<open>
  Strings are byte strings holding the UTF-8 encoding of the JavaScript string.

  The record has the extended schema (with the complaint counters). The first version of
  \<open>dataProcessor.ts\<close> only reads the six counters of the basic schema.
\<close>

record BlacklistRecord =
  dt :: string
  account :: string
  province :: string
  group_r :: string
  total_outbound_count :: jsNumber
  black_outbound_count :: jsNumber
  total_pickup_count :: jsNumber
  black_pickup_count :: jsNumber
  total_pay_count :: jsNumber
  black_pay_count :: jsNumber
  total_complain_count :: jsNumber
  black_complain_count :: jsNumber

text \<open>
  The six running sums: the value type of the \<open>Map\<close> that every grouped reduction builds, and
  the common prefix of every statistics row.
\<close>

record Sums =
  totalOutbound :: jsNumber
  blackOutbound :: jsNumber
  totalPickup :: jsNumber
  blackPickup :: jsNumber
  totalPay :: jsNumber
  blackPay :: jsNumber

text \<open>The two rates that every statistics row carries.\<close>

record RateRow = Sums +
  blackOutboundRate :: jsRatio
  blackPickupRate :: jsRatio

record OverallStats = RateRow +
  blackPayRate :: jsRatio

record OverallStatsExt = OverallStats +
  totalComplain :: jsNumber
  blackComplain :: jsNumber
  blackComplainRate :: jsRatio

record GroupStats = RateRow +
  group_g :: string

record ProvinceStats = RateRow +
  province_p :: string

record AccountStats = RateRow +
  account_a :: string

record AccountProvinceStats = RateRow +
  account_ap :: string
  province_ap :: string

text \<open>The value type of the \<open>Map\<close> in \<open>calculateAccountProvinceStats\<close>.\<close>

record AccountProvinceBucket = Sums +
  account_b :: string
  province_b :: string

text \<open>The sentinel \<open>'\<dots>'\<close> ("unknown", U+672A U+77E5), as UTF-8 bytes.\<close>

definition unknown :: string where
  "unknown = [CHR 0xE6, CHR 0x9C, CHR 0xAA, CHR 0xE7, CHR 0x9F, CHR 0xA5]"

text \<open>\<open>s || d\<close> on a string that may be \<open>undefined\<close>: the empty string is falsy.\<close>

definition orDefault :: "string option \<Rightarrow> string \<Rightarrow> string" where
  "orDefault v d = (case v of None \<Rightarrow> d | Some s \<Rightarrow> if s = [] then d else s)"

text \<open>\<open>total > 0 ? (black / total) * 100 : 0\<close>\<close>

definition rate :: "jsNumber \<Rightarrow> jsNumber \<Rightarrow> jsRatio" where
  "rate blackCount totalCount =
     (if jsGt0 totalCount then times100 (jsDivide blackCount totalCount) else Ratio 0)"

section \<open>The built-in \<open>parseInt\<close> with one argument\<close>

text \<open>
  Byte length of the white space or line terminator code point at the head of the string
  (ECMAScript \<open>StrWhiteSpaceChar\<close>), 0 when there is none.
\<close>

definition wsLen :: "string \<Rightarrow> nat" where
  "wsLen s =
     (let b = map (of_char :: char \<Rightarrow> nat) (take 3 s) in
      case b of
        [] \<Rightarrow> 0
      | b0 # r \<Rightarrow>
          if b0 \<in> {0x09, 0x0A, 0x0B, 0x0C, 0x0D, 0x20} then 1
          else if b0 = 0xC2 \<and> take 1 r = [0xA0] then 2
          else if b0 = 0xE1 \<and> r = [0x9A, 0x80] then 3
          else if b0 = 0xE2 \<and> take 1 r = [0x80] \<and> length r = 2 \<and>
                  (r ! 1 \<le> 0x8A \<and> 0x80 \<le> r ! 1 \<or> r ! 1 \<in> {0xA8, 0xA9, 0xAF}) then 3
          else if b0 = 0xE2 \<and> r = [0x81, 0x9F] then 3
          else if b0 = 0xE3 \<and> r = [0x80, 0x80] then 3
          else if b0 = 0xEF \<and> r = [0xBB, 0xBF] then 3
          else 0)"

function trimStart :: "string \<Rightarrow> string" where
  "trimStart s = (if wsLen s = 0 \<or> s = [] then s else trimStart (drop (wsLen s) s))"
  by pat_completeness auto
termination
  by (relation "measure length") auto

declare trimStart.simps [simp del]

text \<open>The value of a character as a digit of the given radix, if it is one.\<close>

definition radixDigit :: "nat \<Rightarrow> char \<Rightarrow> nat option" where
  "radixDigit R c =
     (let n = (of_char c :: nat);
          d = (if 48 \<le> n \<and> n \<le> 57 then Some (n - 48)
               else if 97 \<le> n \<and> n \<le> 122 then Some (n - 87)
               else if 65 \<le> n \<and> n \<le> 90 then Some (n - 55)
               else None)
      in case d of None \<Rightarrow> None | Some v \<Rightarrow> if v < R then Some v else None)"

fun leadingDigits :: "nat \<Rightarrow> string \<Rightarrow> nat list" where
  "leadingDigits R [] = []"
| "leadingDigits R (c # cs) =
     (case radixDigit R c of None \<Rightarrow> [] | Some d \<Rightarrow> d # leadingDigits R cs)"

definition digitsValue :: "nat \<Rightarrow> nat list \<Rightarrow> nat" where
  "digitsValue R ds = foldl (\<lambda>acc d. acc * R + d) 0 ds"

text \<open>
  \<open>parseInt(string)\<close>: leading white space is skipped, a sign is read, a \<open>0x\<close>/\<open>0X\<close> prefix
  switches to radix 16, and the longest prefix of digits is read: without a digit the result
  is \<open>NaN\<close>, otherwise it is the double nearest to the signed value of the digits. (Beyond
  20 significant decimal digits the language also allows an implementation to read the
  later digits as zeros; the model reads every digit.)
\<close>

definition parseInt :: "string \<Rightarrow> jsNumber" where
  "parseInt inputString =
     (let S = trimStart inputString;
          sign = (if take 1 S = ''-'' then - 1 else (1::int));
          S1 = (if take 1 S = ''+'' \<or> take 1 S = ''-'' then drop 1 S else S);
          hex = (take 2 S1 = ''0x'' \<or> take 2 S1 = ''0X'');
          R = (if hex then 16 else 10);
          S2 = (if hex then drop 2 S1 else S1);
          Z = leadingDigits R S2
      in if Z = [] then NaN else roundToDouble (sign * int (digitsValue R Z)))"

text \<open>\<open>ToString\<close> of a property that may be \<open>undefined\<close>.\<close>

definition toString :: "string option \<Rightarrow> string" where
  "toString v = (case v of None \<Rightarrow> ''undefined'' | Some s \<Rightarrow> s)"

text \<open>\<open>parseInt(v) || 0\<close>: \<open>NaN\<close> and \<open>0\<close> are falsy.\<close>

definition parseIntOrZero :: "string option \<Rightarrow> jsNumber" where
  "parseIntOrZero v =
     (let n = parseInt (toString v) in if n = NaN \<or> n = Finite 0 then Finite 0 else n)"

section \<open>\<open>parseCSVData\<close>\<close>

text \<open>
  \<open>Papa.parse\<close> belongs to the papaparse library and is a parameter of the model. With
  \<open>header: true\<close> its result holds one object per data row, mapping the header names to the
  row's fields (all strings), and a list of errors. The result's \<open>data\<close> is always an array, so
  the test \<open>!result.data\<close> never holds and only the test on the errors is modelled.
\<close>

type_synonym CSVRow = "string \<rightharpoonup> string"

record ParseResult =
  data :: "CSVRow list"
  errors :: "string list"

definition rowToRecord :: "CSVRow \<Rightarrow> BlacklistRecord" where
  "rowToRecord row =
     \<lparr> dt = orDefault (row ''dt'') '''',
       account = orDefault (row ''account'') unknown,
       province = orDefault (row ''province'') unknown,
       group_r = orDefault (row ''group'') '''',
       total_outbound_count = parseIntOrZero (row ''total_outbound_count''),
       black_outbound_count = parseIntOrZero (row ''black_outbound_count''),
       total_pickup_count = parseIntOrZero (row ''total_pickup_count''),
       black_pickup_count = parseIntOrZero (row ''black_pickup_count''),
       total_pay_count = parseIntOrZero (row ''total_pay_count''),
       black_pay_count = parseIntOrZero (row ''black_pay_count''),
       total_complain_count = parseIntOrZero (row ''total_complain_count''),
       black_complain_count = parseIntOrZero (row ''black_complain_count'') \<rparr>"

definition parseCSVData :: "(string \<Rightarrow> ParseResult) \<Rightarrow> string \<Rightarrow> BlacklistRecord list" where
  "parseCSVData papaParse csvText =
     (let result = papaParse csvText
      in if length (errors result) > 0 then [] else map rowToRecord (data result))"

section \<open>\<open>calculateOverallStats\<close>\<close>

text \<open>The basic schema: six running sums and three rates.\<close>

definition overallStep :: "BlacklistRecord \<Rightarrow> Sums \<Rightarrow> Sums" where
  "overallStep record s =
     \<lparr> totalOutbound = jsAdd (totalOutbound s) (total_outbound_count record),
       blackOutbound = jsAdd (blackOutbound s) (black_outbound_count record),
       totalPickup = jsAdd (totalPickup s) (total_pickup_count record),
       blackPickup = jsAdd (blackPickup s) (black_pickup_count record),
       totalPay = jsAdd (totalPay s) (total_pay_count record),
       blackPay = jsAdd (blackPay s) (black_pay_count record) \<rparr>"

definition emptySums :: Sums where
  "emptySums = \<lparr> totalOutbound = Finite 0, blackOutbound = Finite 0, totalPickup = Finite 0,
                 blackPickup = Finite 0, totalPay = Finite 0, blackPay = Finite 0 \<rparr>"

definition calculateOverallStats :: "BlacklistRecord list \<Rightarrow> OverallStats" where
  "calculateOverallStats records =
     (let s = fold overallStep records emptySums
      in \<lparr> totalOutbound = totalOutbound s,
           blackOutbound = blackOutbound s,
           totalPickup = totalPickup s,
           blackPickup = blackPickup s,
           totalPay = totalPay s,
           blackPay = blackPay s,
           blackOutboundRate = rate (blackOutbound s) (totalOutbound s),
           blackPickupRate = rate (blackPickup s) (totalPickup s),
           blackPayRate = rate (blackPay s) (totalPay s) \<rparr>)"

text \<open>The extended schema: two more running sums and a fourth rate.\<close>

definition overallStepExt ::
  "BlacklistRecord \<Rightarrow> Sums \<times> jsNumber \<times> jsNumber \<Rightarrow> Sums \<times> jsNumber \<times> jsNumber" where
  "overallStepExt record acc =
     (case acc of (s, totalComplain', blackComplain') \<Rightarrow>
        (overallStep record s,
         jsAdd totalComplain' (total_complain_count record),
         jsAdd blackComplain' (black_complain_count record)))"

definition calculateOverallStatsExt :: "BlacklistRecord list \<Rightarrow> OverallStatsExt" where
  "calculateOverallStatsExt records =
     (case fold overallStepExt records (emptySums, Finite 0, Finite 0) of (s, totalComplain', blackComplain') \<Rightarrow>
        \<lparr> totalOutbound = totalOutbound s,
          blackOutbound = blackOutbound s,
          totalPickup = totalPickup s,
          blackPickup = blackPickup s,
          totalPay = totalPay s,
          blackPay = blackPay s,
          blackOutboundRate = rate (blackOutbound s) (totalOutbound s),
          blackPickupRate = rate (blackPickup s) (totalPickup s),
          blackPayRate = rate (blackPay s) (totalPay s),
          totalComplain = totalComplain',
          blackComplain = blackComplain',
          blackComplainRate = rate blackComplain' totalComplain' \<rparr>)"

section \<open>The built-in \<open>Map\<close> and \<open>Array.prototype.sort\<close>\<close>

text \<open>
  A \<open>Map\<close> iterates in insertion order, and \<open>set\<close> on a key that is present keeps the key's
  place. It is modelled as an association list: \<open>get\<close> is \<open>map_of\<close>, \<open>set\<close> is \<open>mapSet\<close>, and
  \<open>Array.from(m.entries())\<close> is the list itself.
\<close>

fun mapSet :: "('k \<times> 'v) list \<Rightarrow> 'k \<Rightarrow> 'v \<Rightarrow> ('k \<times> 'v) list" where
  "mapSet [] k v = [(k, v)]"
| "mapSet ((k', v') # m) k v = (if k' = k then (k, v) # m else (k', v') # mapSet m k v)"

text \<open>
  \<open>sort(compareFn)\<close> is stable (ECMAScript 2019): it is modelled as insertion sort, where an
  element goes behind the elements that the comparator puts before it (a result above 0)
  and before the first other one. A comparator result of \<open>NaN\<close> counts as 0, as the
  language prescribes. For a consistent comparator the result of a stable sort is unique;
  for one that is not, the language leaves the order to the implementation, and the
  insertion sort is one of the orders allowed.
\<close>

fun insertBy :: "('a \<Rightarrow> 'a \<Rightarrow> jsNumber) \<Rightarrow> 'a \<Rightarrow> 'a list \<Rightarrow> 'a list" where
  "insertBy cmp x [] = [x]"
| "insertBy cmp x (y # ys) = (if jsGt0 (cmp x y) then y # insertBy cmp x ys else x # y # ys)"

definition sortBy :: "('a \<Rightarrow> 'a \<Rightarrow> jsNumber) \<Rightarrow> 'a list \<Rightarrow> 'a list" where
  "sortBy cmp xs = foldr (insertBy cmp) xs []"

text \<open>\<open>(a, b) => b.totalOutbound - a.totalOutbound\<close>\<close>

definition byTotalOutboundDesc :: "'a Sums_scheme \<Rightarrow> 'a Sums_scheme \<Rightarrow> jsNumber" where
  "byTotalOutboundDesc a b = jsSub (totalOutbound b) (totalOutbound a)"

section \<open>The grouped reductions\<close>

text \<open>\<open>s || '\<dots>'\<close> on a string: the empty string is replaced by the sentinel.\<close>

definition orUnknown :: "string \<Rightarrow> string" where
  "orUnknown s = (if s = [] then unknown else s)"

text \<open>
  The object literal that every grouped reduction stores with \<open>set\<close>: the sums of the
  existing bucket plus the counters of the record.
\<close>

definition addRecord :: "'a Sums_scheme \<Rightarrow> BlacklistRecord \<Rightarrow> Sums" where
  "addRecord existing record =
     \<lparr> totalOutbound = jsAdd (totalOutbound existing) (total_outbound_count record),
       blackOutbound = jsAdd (blackOutbound existing) (black_outbound_count record),
       totalPickup = jsAdd (totalPickup existing) (total_pickup_count record),
       blackPickup = jsAdd (blackPickup existing) (black_pickup_count record),
       totalPay = jsAdd (totalPay existing) (total_pay_count record),
       blackPay = jsAdd (blackPay existing) (black_pay_count record) \<rparr>"

text \<open>\<open>m.get(k) || {totalOutbound: 0, \<dots>}\<close>\<close>

definition getOrEmpty :: "(string \<times> Sums) list \<Rightarrow> string \<Rightarrow> Sums" where
  "getOrEmpty m k = (case map_of m k of Some existing \<Rightarrow> existing | None \<Rightarrow> emptySums)"

text \<open>
  An optional string argument used as a condition (\<open>group ? \<dots> : records\<close>): \<open>undefined\<close>
  and the empty string are falsy.
\<close>

definition truthy :: "string option \<Rightarrow> bool" where
  "truthy v = (case v of None \<Rightarrow> False | Some s \<Rightarrow> s \<noteq> [])"

subsection \<open>\<open>calculateGroupStats\<close>\<close>

definition groupStep :: "BlacklistRecord \<Rightarrow> (string \<times> Sums) list \<Rightarrow> (string \<times> Sums) list" where
  "groupStep record groupMap =
     (let grp = group_r record;
          existing = getOrEmpty groupMap grp
      in mapSet groupMap grp (addRecord existing record))"

definition groupRow :: "string \<times> Sums \<Rightarrow> GroupStats" where
  "groupRow e =
     (case e of (grp, stats) \<Rightarrow>
        \<lparr> totalOutbound = totalOutbound stats,
          blackOutbound = blackOutbound stats,
          totalPickup = totalPickup stats,
          blackPickup = blackPickup stats,
          totalPay = totalPay stats,
          blackPay = blackPay stats,
          blackOutboundRate = rate (blackOutbound stats) (totalOutbound stats),
          blackPickupRate = rate (blackPickup stats) (totalPickup stats),
          group_g = grp \<rparr>)"

definition calculateGroupStats :: "BlacklistRecord list \<Rightarrow> GroupStats list" where
  "calculateGroupStats records = map groupRow (fold groupStep records [])"

subsection \<open>\<open>calculateProvinceStats\<close>\<close>

definition filterByGroup :: "BlacklistRecord list \<Rightarrow> string option \<Rightarrow> BlacklistRecord list" where
  "filterByGroup records grp =
     (if truthy grp then filter (\<lambda>r. Some (group_r r) = grp) records else records)"

definition provinceStep :: "BlacklistRecord \<Rightarrow> (string \<times> Sums) list \<Rightarrow> (string \<times> Sums) list" where
  "provinceStep record provinceMap =
     (let prov = orUnknown (province record);
          existing = getOrEmpty provinceMap prov
      in mapSet provinceMap prov (addRecord existing record))"

definition provinceRow :: "string \<times> Sums \<Rightarrow> ProvinceStats" where
  "provinceRow e =
     (case e of (prov, stats) \<Rightarrow>
        \<lparr> totalOutbound = totalOutbound stats,
          blackOutbound = blackOutbound stats,
          totalPickup = totalPickup stats,
          blackPickup = blackPickup stats,
          totalPay = totalPay stats,
          blackPay = blackPay stats,
          blackOutboundRate = rate (blackOutbound stats) (totalOutbound stats),
          blackPickupRate = rate (blackPickup stats) (totalPickup stats),
          province_p = prov \<rparr>)"

text \<open>The \<open>Map\<close> after the \<open>forEach\<close>, and the rows before the sort.\<close>

definition provinceMap :: "BlacklistRecord list \<Rightarrow> string option \<Rightarrow> (string \<times> Sums) list" where
  "provinceMap records grp = fold provinceStep (filterByGroup records grp) []"

definition calculateProvinceStats :: "BlacklistRecord list \<Rightarrow> string option \<Rightarrow> ProvinceStats list" where
  "calculateProvinceStats records grp =
     sortBy byTotalOutboundDesc (map provinceRow (provinceMap records grp))"

subsection \<open>\<open>calculateAccountStats\<close>\<close>

definition accountStep :: "BlacklistRecord \<Rightarrow> (string \<times> Sums) list \<Rightarrow> (string \<times> Sums) list" where
  "accountStep record accountMap =
     (let acct = orUnknown (account record);
          existing = getOrEmpty accountMap acct
      in mapSet accountMap acct (addRecord existing record))"

definition accountRow :: "string \<times> Sums \<Rightarrow> AccountStats" where
  "accountRow e =
     (case e of (acct, stats) \<Rightarrow>
        \<lparr> totalOutbound = totalOutbound stats,
          blackOutbound = blackOutbound stats,
          totalPickup = totalPickup stats,
          blackPickup = blackPickup stats,
          totalPay = totalPay stats,
          blackPay = blackPay stats,
          blackOutboundRate = rate (blackOutbound stats) (totalOutbound stats),
          blackPickupRate = rate (blackPickup stats) (totalPickup stats),
          account_a = acct \<rparr>)"

definition accountMap :: "BlacklistRecord list \<Rightarrow> (string \<times> Sums) list" where
  "accountMap records = fold accountStep records []"

definition calculateAccountStats :: "BlacklistRecord list \<Rightarrow> AccountStats list" where
  "calculateAccountStats records =
     sortBy byTotalOutboundDesc (map accountRow (accountMap records))"

subsection \<open>\<open>calculateAccountProvinceStats\<close>\<close>

definition filterByAccount :: "BlacklistRecord list \<Rightarrow> string option \<Rightarrow> BlacklistRecord list" where
  "filterByAccount records acct =
     (if truthy acct then filter (\<lambda>r. Some (account r) = acct) records else records)"

text \<open>The template literal \<open>`${record.account}|${record.province || '\<dots>'}`\<close>.\<close>

definition accountProvinceKey :: "BlacklistRecord \<Rightarrow> string" where
  "accountProvinceKey record = account record @ ''|'' @ orUnknown (province record)"

definition accountProvinceStep ::
  "BlacklistRecord \<Rightarrow> (string \<times> AccountProvinceBucket) list \<Rightarrow> (string \<times> AccountProvinceBucket) list"
where
  "accountProvinceStep record accountProvinceMap =
     (let key = accountProvinceKey record;
          existing = (case map_of accountProvinceMap key of
                        Some e \<Rightarrow> e
                      | None \<Rightarrow>
                          \<lparr> totalOutbound = Finite 0, blackOutbound = Finite 0,
                            totalPickup = Finite 0, blackPickup = Finite 0,
                            totalPay = Finite 0, blackPay = Finite 0,
                            account_b = orUnknown (account record),
                            province_b = orUnknown (province record) \<rparr>)
      in mapSet accountProvinceMap key
           \<lparr> totalOutbound = jsAdd (totalOutbound existing) (total_outbound_count record),
             blackOutbound = jsAdd (blackOutbound existing) (black_outbound_count record),
             totalPickup = jsAdd (totalPickup existing) (total_pickup_count record),
             blackPickup = jsAdd (blackPickup existing) (black_pickup_count record),
             totalPay = jsAdd (totalPay existing) (total_pay_count record),
             blackPay = jsAdd (blackPay existing) (black_pay_count record),
             account_b = orUnknown (account record),
             province_b = orUnknown (province record) \<rparr>)"

definition accountProvinceRow :: "AccountProvinceBucket \<Rightarrow> AccountProvinceStats" where
  "accountProvinceRow stats =
     \<lparr> totalOutbound = totalOutbound stats,
       blackOutbound = blackOutbound stats,
       totalPickup = totalPickup stats,
       blackPickup = blackPickup stats,
       totalPay = totalPay stats,
       blackPay = blackPay stats,
       blackOutboundRate = rate (blackOutbound stats) (totalOutbound stats),
       blackPickupRate = rate (blackPickup stats) (totalPickup stats),
       account_ap = account_b stats,
       province_ap = province_b stats \<rparr>"

definition accountProvinceMap ::
  "BlacklistRecord list \<Rightarrow> string option \<Rightarrow> (string \<times> AccountProvinceBucket) list" where
  "accountProvinceMap records acct = fold accountProvinceStep (filterByAccount records acct) []"

definition calculateAccountProvinceStats ::
  "BlacklistRecord list \<Rightarrow> string option \<Rightarrow> AccountProvinceStats list" where
  "calculateAccountProvinceStats records acct =
     sortBy byTotalOutboundDesc
       (map accountProvinceRow (map snd (accountProvinceMap records acct)))"

section \<open>Batch mode (\<open>handleUpload\<close> in src/web-app/src/App.tsx)\<close>

record UploadedFile =
  name :: string
  content :: string

record BatchFileResult =
  fileName :: string
  stats :: OverallStatsExt
  rawData :: "BlacklistRecord list"

text \<open>\<open>file.name.replace(/\.csv$/i, '')\<close>: a final \<open>.csv\<close>, in any case, is removed.\<close>

definition isCsvSuffix :: "string \<Rightarrow> bool" where
  "isCsvSuffix t =
     (case t of
        [c0, c1, c2, c3] \<Rightarrow>
          c0 = CHR ''.'' \<and> (c1 = CHR ''c'' \<or> c1 = CHR ''C'') \<and> (c2 = CHR ''s'' \<or> c2 = CHR ''S'')
          \<and> (c3 = CHR ''v'' \<or> c3 = CHR ''V'')
      | _ \<Rightarrow> False)"

definition removeCsvSuffix :: "string \<Rightarrow> string" where
  "removeCsvSuffix nm =
     (let n = length nm
      in if 4 \<le> n \<and> isCsvSuffix (drop (n - 4) nm) then take (n - 4) nm else nm)"

text \<open>
  The React state that \<open>handleUpload\<close> writes (\<open>setData\<close>, \<open>setBatchData\<close>), and the two
  messages it can show with \<open>alert\<close>.
\<close>

record AppState =
  data_st :: "BlacklistRecord list option"
  batchData_st :: "BatchFileResult list option"

datatype alert = NoValidCsvData | CannotParseCsv

text \<open>The body of \<open>files.forEach\<close> in batch mode; \<open>results.push\<close> appends.\<close>

definition batchStep ::
  "(string \<Rightarrow> ParseResult) \<Rightarrow> UploadedFile \<Rightarrow> BatchFileResult list \<Rightarrow> BatchFileResult list" where
  "batchStep papaParse file results =
     (let records = parseCSVData papaParse (content file)
      in if length records > 0
         then results @ [\<lparr> fileName = removeCsvSuffix (name file),
                             stats = calculateOverallStatsExt records,
                             rawData = records \<rparr>]
         else results)"

definition handleUpload ::
  "(string \<Rightarrow> ParseResult) \<Rightarrow> AppState \<Rightarrow> UploadedFile list \<Rightarrow> bool \<Rightarrow> AppState \<times> alert option"
where
  "handleUpload papaParse st files isBatch =
     (case files of
        [] \<Rightarrow> (st, None)
      | file0 # _ \<Rightarrow>
          if isBatch then
            (let results = fold (batchStep papaParse) files []
             in if length results = 0 then (st, Some NoValidCsvData)
                else (st\<lparr>batchData_st := Some results, data_st := None\<rparr>, None))
          else
            (let records = parseCSVData papaParse (content file0)
             in if length records = 0 then (st, Some CannotParseCsv)
                else (st\<lparr>data_st := Some records, batchData_st := None\<rparr>, None)))"

section \<open>The properties of a statistics row\<close>

text \<open>
  \<open>Object.entries(row)\<close> for the rows of the grouped reductions: the properties that the
  object literal of the reduction writes, in its order (the key, the spread sums, the rates).
\<close>

datatype jsValue = JSString string | JSNumber jsNumber | JSRatio jsRatio

definition sumsEntries :: "'a Sums_scheme \<Rightarrow> (string \<times> jsValue) list" where
  "sumsEntries s =
     [(''totalOutbound'', JSNumber (totalOutbound s)),
      (''blackOutbound'', JSNumber (blackOutbound s)),
      (''totalPickup'', JSNumber (totalPickup s)),
      (''blackPickup'', JSNumber (blackPickup s)),
      (''totalPay'', JSNumber (totalPay s)),
      (''blackPay'', JSNumber (blackPay s))]"

definition ratesEntries :: "'a RateRow_scheme \<Rightarrow> (string \<times> jsValue) list" where
  "ratesEntries r =
     [(''blackOutboundRate'', JSRatio (blackOutboundRate r)),
      (''blackPickupRate'', JSRatio (blackPickupRate r))]"

definition groupStatsEntries :: "GroupStats \<Rightarrow> (string \<times> jsValue) list" where
  "groupStatsEntries r = [(''group'', JSString (group_g r))] @ sumsEntries r @ ratesEntries r"

definition provinceStatsEntries :: "ProvinceStats \<Rightarrow> (string \<times> jsValue) list" where
  "provinceStatsEntries r = [(''province'', JSString (province_p r))] @ sumsEntries r @ ratesEntries r"

definition accountStatsEntries :: "AccountStats \<Rightarrow> (string \<times> jsValue) list" where
  "accountStatsEntries r = [(''account'', JSString (account_a r))] @ sumsEntries r @ ratesEntries r"

definition accountProvinceStatsEntries :: "AccountProvinceStats \<Rightarrow> (string \<times> jsValue) list" where
  "accountProvinceStatsEntries r =
     [(''account'', JSString (account_ap r)), (''province'', JSString (province_ap r))]
     @ sumsEntries r @ ratesEntries r"

section \<open>Notions used to state the properties\<close>

text \<open>The distinct elements of a list, in the order of their first occurrence.\<close>

definition firstSeen :: "'a list \<Rightarrow> 'a list" where
  "firstSeen xs = rev (remdups (rev xs))"

text \<open>
  The sum of a list of numbers as the code computes it: from 0, left to right, each
  addition rounded. The six counters summed in this way over a list of records.
\<close>

definition jsSum :: "jsNumber list \<Rightarrow> jsNumber" where
  "jsSum xs = foldl jsAdd (Finite 0) xs"

definition sumsOf :: "BlacklistRecord list \<Rightarrow> Sums" where
  "sumsOf rs =
     \<lparr> totalOutbound = jsSum (map total_outbound_count rs),
       blackOutbound = jsSum (map black_outbound_count rs),
       totalPickup = jsSum (map total_pickup_count rs),
       blackPickup = jsSum (map black_pickup_count rs),
       totalPay = jsSum (map total_pay_count rs),
       blackPay = jsSum (map black_pay_count rs) \<rparr>"

text \<open>
  A finite number and its value; counters that are integers whose absolute values add up
  to less than \<open>2^53\<close>, so that every sum of some of them is computed exactly.
\<close>

fun isFinite :: "jsNumber \<Rightarrow> bool" where
  "isFinite (Finite n) = True"
| "isFinite x = False"

fun finiteValue :: "jsNumber \<Rightarrow> int" where
  "finiteValue (Finite n) = n"
| "finiteValue x = 0"

definition safeCounter :: "(BlacklistRecord \<Rightarrow> jsNumber) \<Rightarrow> BlacklistRecord list \<Rightarrow> bool" where
  "safeCounter f rs =
     (list_all (\<lambda>r. isFinite (f r)) rs
      \<and> sum_list (map (\<lambda>r. \<bar>finiteValue (f r)\<bar>) rs) < 2 ^ 53)"

text \<open>
  The common shape of the loop bodies of the group, province and account reductions, for
  a key extraction function.
\<close>

definition keyedStep ::
  "(BlacklistRecord \<Rightarrow> string) \<Rightarrow> BlacklistRecord \<Rightarrow> (string \<times> Sums) list \<Rightarrow> (string \<times> Sums) list"
where
  "keyedStep keyf r m = mapSet m (keyf r) (addRecord (getOrEmpty m (keyf r)) r)"

text \<open>A record of the basic schema with finite counters, for stating examples.\<close>

definition mkRecord ::
  "string \<Rightarrow> string \<Rightarrow> string \<Rightarrow> int \<Rightarrow> int \<Rightarrow> int \<Rightarrow> int \<Rightarrow> int \<Rightarrow> int \<Rightarrow> BlacklistRecord"
where
  "mkRecord acct prov grp tOut bOut tPick bPick tPay bPay =
     \<lparr> dt = ''2024-01-01'', account = acct, province = prov, group_r = grp,
       total_outbound_count = Finite tOut, black_outbound_count = Finite bOut,
       total_pickup_count = Finite tPick, black_pickup_count = Finite bPick,
       total_pay_count = Finite tPay, black_pay_count = Finite bPay,
       total_complain_count = Finite 0, black_complain_count = Finite 0 \<rparr>"

text \<open>The records of a group, as the filter \<open>r => r.group === g\<close> selects them.\<close>

definition inGroup :: "string \<Rightarrow> BlacklistRecord \<Rightarrow> bool" where
  "inGroup g r = (group_r r = g)"

text \<open>
  The province reduction of the participating records, in the words of the specification:
  one row per province (defaulted to the sentinel when blank), holding the sums over the
  participating records of that province and the two rates, sorted descending by total
  outbound volume, ties in first-seen order.
\<close>

definition provinceReductionOf :: "BlacklistRecord list \<Rightarrow> ProvinceStats list" where
  "provinceReductionOf part =
     sortBy byTotalOutboundDesc
       (map (\<lambda>k. provinceRow (k, sumsOf (filter (\<lambda>r. orUnknown (province r) = k) part)))
          (firstSeen (map (\<lambda>r. orUnknown (province r)) part)))"

text \<open>
  A row with \<open>black <= total\<close> in every counter pair, and a row whose counters are
  moreover integers with non-negative black counts.
\<close>

definition blackAtMostTotal :: "BlacklistRecord \<Rightarrow> bool" where
  "blackAtMostTotal r =
     (jsLe (black_outbound_count r) (total_outbound_count r)
      \<and> jsLe (black_pickup_count r) (total_pickup_count r)
      \<and> jsLe (black_pay_count r) (total_pay_count r)
      \<and> jsLe (black_complain_count r) (total_complain_count r))"

definition validPair :: "jsNumber \<Rightarrow> jsNumber \<Rightarrow> bool" where
  "validPair blackCount totalCount =
     (isFinite blackCount \<and> isFinite totalCount
      \<and> 0 \<le> finiteValue blackCount \<and> finiteValue blackCount \<le> finiteValue totalCount)"

definition validCounters :: "BlacklistRecord \<Rightarrow> bool" where
  "validCounters r =
     (validPair (black_outbound_count r) (total_outbound_count r)
      \<and> validPair (black_pickup_count r) (total_pickup_count r)
      \<and> validPair (black_pay_count r) (total_pay_count r)
      \<and> validPair (black_complain_count r) (total_complain_count r))"

fun inPercentRange :: "jsRatio \<Rightarrow> bool" where
  "inPercentRange (Ratio x) = (0 \<le> x \<and> x \<le> 100)"
| "inPercentRange x = False"

text \<open>The invariant of the buckets of a grouped reduction on such rows.\<close>

definition okSums :: "'a Sums_scheme \<Rightarrow> bool" where
  "okSums s = (validPair (blackOutbound s) (totalOutbound s)
               \<and> validPair (blackPickup s) (totalPickup s))"

text \<open>Notions for the properties of the parser.\<close>

definition isDecDigit :: "char \<Rightarrow> bool" where
  "isDecDigit c = (48 \<le> (of_char c :: nat) \<and> (of_char c :: nat) \<le> 57)"

text \<open>
  The text, after leading white space and one optional sign, begins with a decimal digit.
\<close>

definition startsNumeric :: "string \<Rightarrow> bool" where
  "startsNumeric s =
     (let S = trimStart s;
          S1 = (if take 1 S = ''+'' \<or> take 1 S = ''-'' then drop 1 S else S)
      in case S1 of [] \<Rightarrow> False | c # _ \<Rightarrow> isDecDigit c)"

text \<open>
  The value of a text of decimal digits, a number that is not negative, and the counter
  that belongs to a field of a row: never \<open>NaN\<close>; 0 for an absent field and for a text
  that does not begin with a digit; not negative for a text without a minus sign; the
  double nearest to the value for a text of decimal digits only.
\<close>

definition decimalValue :: "string \<Rightarrow> nat" where
  "decimalValue s = foldl (\<lambda>acc c. acc * 10 + ((of_char c :: nat) - 48)) 0 s"

fun nonNegative :: "jsNumber \<Rightarrow> bool" where
  "nonNegative (Finite n) = (0 \<le> n)"
| "nonNegative PosInfinity = True"
| "nonNegative x = False"

definition counterOfField :: "jsNumber \<Rightarrow> string option \<Rightarrow> bool" where
  "counterOfField c v =
     (c \<noteq> NaN
      \<and> (v = None \<longrightarrow> c = Finite 0)
      \<and> (\<forall>s. v = Some s \<longrightarrow>
            (\<not> startsNumeric s \<longrightarrow> c = Finite 0)
            \<and> (CHR ''-'' \<notin> set s \<longrightarrow> nonNegative c)
            \<and> (s \<noteq> [] \<and> list_all isDecDigit s \<longrightarrow> c = roundToDouble (int (decimalValue s)))))"

text \<open>The counter columns of the input and the fields of the record they fill.\<close>

definition counterFields :: "(string \<times> (BlacklistRecord \<Rightarrow> jsNumber)) list" where
  "counterFields =
     [(''total_outbound_count'', total_outbound_count),
      (''black_outbound_count'', black_outbound_count),
      (''total_pickup_count'', total_pickup_count),
      (''black_pickup_count'', black_pickup_count),
      (''total_pay_count'', total_pay_count),
      (''black_pay_count'', black_pay_count),
      (''total_complain_count'', total_complain_count),
      (''black_complain_count'', black_complain_count)]"

text \<open>
  An example input of two lines, the row that \<open>Papa.parse\<close> makes of it, and a stand-in for
  \<open>Papa.parse\<close> that is only meant for this text and for the empty text (no row).
\<close>

definition exampleCsv :: string where
  "exampleCsv =
     ''dt,group,total_outbound_count,black_outbound_count,total_pickup_count,''
     @ ''black_pickup_count,total_pay_count'' @ [CHR 0x0A]
     @ ''2024-01-01,31,-5,abc,12abc,0x1A,'' @ replicate 309 (CHR ''9'')"

definition exampleRow :: CSVRow where
  "exampleRow = [''dt'' \<mapsto> ''2024-01-01'', ''group'' \<mapsto> ''31'',
                 ''total_outbound_count'' \<mapsto> ''-5'', ''black_outbound_count'' \<mapsto> ''abc'',
                 ''total_pickup_count'' \<mapsto> ''12abc'', ''black_pickup_count'' \<mapsto> ''0x1A'',
                 ''total_pay_count'' \<mapsto> replicate 309 (CHR ''9'')]"

definition papaExample :: "string \<Rightarrow> ParseResult" where
  "papaExample csvText =
     (if csvText = exampleCsv then \<lparr> data = [exampleRow], errors = [] \<rparr>
      else \<lparr> data = [], errors = [] \<rparr>)"

text \<open>A file whose content parses into at least one record, and the batch result of a file.\<close>

definition parses :: "(string \<Rightarrow> ParseResult) \<Rightarrow> UploadedFile \<Rightarrow> bool" where
  "parses papaParse file = (parseCSVData papaParse (content file) \<noteq> [])"

definition batchResultOf :: "(string \<Rightarrow> ParseResult) \<Rightarrow> UploadedFile \<Rightarrow> BatchFileResult" where
  "batchResultOf papaParse file =
     \<lparr> fileName = removeCsvSuffix (name file),
       stats = calculateOverallStatsExt (parseCSVData papaParse (content file)),
       rawData = parseCSVData papaParse (content file) \<rparr>"

text \<open>
  The exact sum of a counter over the records and of the \<open>totalOutbound\<close> over rows (for
  finite numbers), and the six sums of a bucket or row on their own.
\<close>

definition exactSum :: "(BlacklistRecord \<Rightarrow> jsNumber) \<Rightarrow> BlacklistRecord list \<Rightarrow> jsNumber" where
  "exactSum f rs = Finite (sum_list (map (\<lambda>r. finiteValue (f r)) rs))"

definition exactTotal :: "'a Sums_scheme list \<Rightarrow> jsNumber" where
  "exactTotal rows = Finite (sum_list (map (\<lambda>row. finiteValue (totalOutbound row)) rows))"

definition allFinite :: "'a Sums_scheme list \<Rightarrow> bool" where
  "allFinite rows = list_all (\<lambda>row. isFinite (totalOutbound row)) rows"

definition sumsPart :: "'a Sums_scheme \<Rightarrow> Sums" where
  "sumsPart s =
     \<lparr> totalOutbound = totalOutbound s, blackOutbound = blackOutbound s,
       totalPickup = totalPickup s, blackPickup = blackPickup s,
       totalPay = totalPay s, blackPay = blackPay s \<rparr>"

text \<open>Rows none of whose \<open>totalOutbound\<close> is \<open>NaN\<close>.\<close>

definition noNaNTotals :: "'a Sums_scheme list \<Rightarrow> bool" where
  "noNaNTotals rows = list_all (\<lambda>row. totalOutbound row \<noteq> NaN) rows"

text \<open>A record with the given total and blacklisted outbound counts, for stating examples.\<close>

definition mkOutbound :: "string \<Rightarrow> string \<Rightarrow> string \<Rightarrow> jsNumber \<Rightarrow> jsNumber \<Rightarrow> BlacklistRecord" where
  "mkOutbound acct prov grp tOut bOut =
     \<lparr> dt = ''2024-01-01'', account = acct, province = prov, group_r = grp,
       total_outbound_count = tOut, black_outbound_count = bOut,
       total_pickup_count = Finite 0, black_pickup_count = Finite 0,
       total_pay_count = Finite 0, black_pay_count = Finite 0,
       total_complain_count = Finite 0, black_complain_count = Finite 0 \<rparr>"

text \<open>
  The rounding of a natural number of at least \<open>2^53\<close> on its own, before the test for
  overflow, and the numbers that the rounding leaves as they are.
\<close>

definition nearest :: "nat \<Rightarrow> nat" where
  "nearest a =
     (let q = 2 ^ (bitLength a - 53);
          lo = a div q;
          rest = a mod q;
          m = (if 2 * rest < q then lo
               else if q < 2 * rest then lo + 1
               else if even lo then lo else lo + 1)
      in m * q)"

fun representable :: "jsNumber \<Rightarrow> bool" where
  "representable (Finite n) = (roundToDouble n = Finite n)"
| "representable x = True"

text \<open>The sum of a counter over the records, as the code computes it, is a finite number.\<close>

definition noOverflow :: "(BlacklistRecord \<Rightarrow> jsNumber) \<Rightarrow> BlacklistRecord list \<Rightarrow> bool" where
  "noOverflow f rs = isFinite (jsSum (map f rs))"

section \<open>Auxiliary facts\<close>

subsection \<open>Numbers\<close>

lemma bitLength_upper: "n < 2 ^ bitLength n"
proof (induction n rule: bitLength.induct)
  case (1 n)
  show ?case
  proof (cases "n = 0")
    case True
    then show ?thesis by (simp add: bitLength.simps [of n])
  next
    case False
    with "1.IH" have "n div 2 < 2 ^ bitLength (n div 2)" by simp
    then have "n < 2 * 2 ^ bitLength (n div 2)" by linarith
    with False show ?thesis by (simp add: bitLength.simps [of n])
  qed
qed

lemma bitLength_lower: "0 < n \<Longrightarrow> 2 ^ (bitLength n - 1) \<le> n"
proof (induction n rule: bitLength.induct)
  case (1 n)
  then have n: "n \<noteq> 0" by simp
  show ?case
  proof (cases "n div 2 = 0")
    case True
    then have "bitLength (n div 2) = 0" by (simp add: bitLength.simps [of 0])
    with n "1.prems" show ?thesis by (simp add: bitLength.simps [of n])
  next
    case False
    with "1.IH" n have ih: "2 ^ (bitLength (n div 2) - 1) \<le> n div 2" by simp
    from False have "bitLength (n div 2) \<noteq> 0"
      by (simp add: bitLength.simps [of "n div 2"])
    then have "(2::nat) ^ bitLength (n div 2) = 2 * 2 ^ (bitLength (n div 2) - 1)"
      by (cases "bitLength (n div 2)") simp_all
    with ih have "2 ^ bitLength (n div 2) \<le> n" by linarith
    with n show ?thesis by (simp add: bitLength.simps [of n])
  qed
qed

lemma roundToDouble_exact: "\<bar>n\<bar> < 2 ^ 53 \<Longrightarrow> roundToDouble n = Finite n"
  by (simp add: roundToDouble_def Let_def nat_less_iff)

lemma roundToDouble_cases:
  obtains (finite) k where "roundToDouble n = Finite k" "(0 < k) = (0 < n)" "(k < 0) = (n < 0)"
  | (pos) "roundToDouble n = PosInfinity" "0 < n"
  | (neg) "roundToDouble n = NegInfinity" "n < 0"
proof (cases "nat \<bar>n\<bar> < 2 ^ 53")
  case True
  then have "roundToDouble n = Finite n"
    by (simp add: roundToDouble_def Let_def)
  then show ?thesis by (rule finite) simp_all
next
  case False
  define a where "a = nat \<bar>n\<bar>"
  define q :: nat where "q = 2 ^ (bitLength a - 53)"
  define lo where "lo = a div q"
  define m where "m = (if 2 * (a mod q) < q then lo
                       else if q < 2 * (a mod q) then lo + 1
                       else if even lo then lo else lo + 1)"
  from False have a: "2 ^ 53 \<le> a" by (simp add: a_def)
  then have a0: "0 < a" by (simp add: order_less_le_trans [of 0 "2 ^ 53" a])
  have n0: "n \<noteq> 0" using a0 by (auto simp: a_def)
  have "q \<le> 2 ^ (bitLength a - 1)"
    unfolding q_def by (rule power_increasing) simp_all
  also have "\<dots> \<le> a" using a0 by (rule bitLength_lower)
  finally have "q \<le> a" .
  moreover have q0: "0 < q" by (simp add: q_def)
  ultimately have "1 \<le> lo"
    unfolding lo_def by (simp add: div_greater_zero_iff Suc_le_eq)
  then have "1 \<le> m" by (simp add: m_def)
  with q0 have mq: "0 < m * q" by simp
  have r: "roundToDouble n =
      (if 2 ^ 1024 \<le> m * q then (if 0 < n then PosInfinity else NegInfinity)
       else Finite (sgn n * int (m * q)))"
    using False unfolding roundToDouble_def Let_def a_def [symmetric] q_def [symmetric]
      lo_def [symmetric] m_def [symmetric]
    by simp
  show ?thesis
  proof (cases "2 ^ 1024 \<le> m * q")
    case True
    with r n0 show ?thesis
      by (cases "0 < n") (auto intro: pos neg)
  next
    case False
    with r have "roundToDouble n = Finite (sgn n * int (m * q))" by simp
    moreover have "(0 < sgn n * int (m * q)) = (0 < n)" "(sgn n * int (m * q) < 0) = (n < 0)"
      using mq n0 by (auto simp: sgn_if zero_less_mult_iff mult_less_0_iff)
    ultimately show ?thesis by (rule finite)
  qed
qed

lemma roundToDouble_not_NaN: "roundToDouble n \<noteq> NaN"
  by (cases n rule: roundToDouble_cases) simp_all

lemma jsGt0_roundToDouble: "jsGt0 (roundToDouble n) = (0 < n)"
  by (cases n rule: roundToDouble_cases) simp_all

lemma jsGt0_jsSub:
  "u \<noteq> NaN \<Longrightarrow> v \<noteq> NaN \<Longrightarrow> jsGt0 (jsSub v u) = (\<not> jsLe v u)"
  by (cases u; cases v) (auto simp: jsSub_def jsGt0_roundToDouble)

lemma jsGt0_jsSub_same: "\<not> jsGt0 (jsSub u u)"
  by (cases u) (simp_all add: jsSub_def jsGt0_roundToDouble)

lemma jsLe_trans: "jsLe x y \<Longrightarrow> jsLe y z \<Longrightarrow> jsLe x z"
  by (cases x; cases y; cases z) simp_all

lemma jsLe_total: "x \<noteq> NaN \<Longrightarrow> y \<noteq> NaN \<Longrightarrow> jsLe x y \<or> jsLe y x"
  by (cases x; cases y) auto

lemma roundToDouble_overflow:
  assumes "2 ^ 1024 \<le> n"
  shows "roundToDouble n = PosInfinity"
proof -
  define a where "a = nat \<bar>n\<bar>"
  define L where "L = bitLength a"
  define q :: nat where "q = 2 ^ (L - 53)"
  define lo where "lo = a div q"
  define m where "m = (if 2 * (a mod q) < q then lo
                       else if q < 2 * (a mod q) then lo + 1
                       else if even lo then lo else lo + 1)"
  have n0: "0 < n"
    using assms by (simp add: order_less_le_trans [of 0 "2 ^ 1024" n])
  have a: "2 ^ 1024 \<le> a"
    using assms n0 by (simp add: a_def le_nat_iff)
  then have a0: "0 < a" by (simp add: order_less_le_trans [of 0 "2 ^ 1024" a])
  have "(2::nat) ^ 1024 < 2 ^ L"
    using a bitLength_upper [of a] unfolding L_def by (rule order_le_less_trans)
  then have L: "1024 < L"
    by (rule power_less_imp_less_exp [rotated]) simp
  have low: "2 ^ (L - 1) \<le> a"
    unfolding L_def using a0 by (rule bitLength_lower)
  have e: "L - 1 = 52 + (L - 53)"
    using L by simp
  have split: "(2::nat) ^ (L - 1) = 2 ^ 52 * q"
    unfolding q_def e by (rule power_add)
  have q0: "0 < q" by (simp add: q_def)
  have "2 ^ 52 * q \<le> a"
    using low unfolding split .
  then have "2 ^ 52 \<le> lo"
    unfolding lo_def using q0 by (simp add: less_eq_div_iff_mult_less_eq)
  then have "2 ^ 52 * q \<le> lo * q" by simp
  moreover have "lo \<le> m" by (simp add: m_def)
  then have "lo * q \<le> m * q" by simp
  moreover have "(2::nat) ^ 1024 \<le> 2 ^ (L - 1)"
    using L by (intro power_increasing) simp_all
  ultimately have big: "2 ^ 1024 \<le> m * q"
    using split by linarith
  have "\<not> a < 2 ^ 53"
    using a by (simp add: not_less order_trans [of "2 ^ 53" "2 ^ 1024" a])
  then show ?thesis
    unfolding roundToDouble_def Let_def a_def [symmetric] L_def [symmetric] q_def [symmetric]
      lo_def [symmetric] m_def [symmetric]
    using big n0 by simp
qed

text \<open>Rounding keeps the order of the numbers and leaves its own results as they are.\<close>

lemma int_big: "2 ^ 53 \<le> v \<Longrightarrow> 2 ^ 53 \<le> int v"
  using of_nat_mono [of "2 ^ 53" v, where ?'a = int] by simp


lemma bitLength_unique:
  assumes "2 ^ k \<le> a" and "a < 2 ^ Suc k"
  shows "bitLength a = Suc k"
proof -
  have a0: "0 < a"
    using assms(1) by (simp add: order_less_le_trans [of 0 "2 ^ k" a])
  have "(2::nat) ^ k < 2 ^ bitLength a"
    using assms(1) bitLength_upper [of a] by (rule order_le_less_trans)
  then have "k < bitLength a"
    by (rule power_less_imp_less_exp [rotated]) simp
  moreover have "(2::nat) ^ (bitLength a - 1) < 2 ^ Suc k"
    using bitLength_lower [OF a0] assms(2) by (rule order_le_less_trans)
  then have "bitLength a - 1 < Suc k"
    by (rule power_less_imp_less_exp [rotated]) simp
  ultimately show ?thesis by linarith
qed

text \<open>The shape of the rounding of a number of \<open>L\<close> binary digits, \<open>L > 53\<close>.\<close>

lemma nearest_shape:
  assumes a: "2 ^ 53 \<le> a"
  obtains L q lo m where "bitLength a = L" "53 < L" "q = 2 ^ (L - 53)" "lo = a div q"
    "2 ^ 52 \<le> lo" "lo < 2 ^ 53" "lo \<le> m" "m \<le> lo + 1" "nearest a = m * q"
    "2 ^ (L - 1) = 2 ^ 52 * q" "2 ^ L = 2 ^ 53 * q"
    "m = (if 2 * (a mod q) < q then lo
          else if q < 2 * (a mod q) then lo + 1
          else if even lo then lo else lo + 1)"
proof -
  define L where "L = bitLength a"
  define q :: nat where "q = 2 ^ (L - 53)"
  define lo where "lo = a div q"
  define m where "m = (if 2 * (a mod q) < q then lo
                       else if q < 2 * (a mod q) then lo + 1
                       else if even lo then lo else lo + 1)"
  have a0: "0 < a"
    using a by (simp add: order_less_le_trans [of 0 "2 ^ 53" a])
  have "(2::nat) ^ 53 < 2 ^ L"
    using a bitLength_upper [of a] unfolding L_def by (rule order_le_less_trans)
  then have L: "53 < L"
    by (rule power_less_imp_less_exp [rotated]) simp
  have e1: "L - 1 = 52 + (L - 53)" and e2: "L = 53 + (L - 53)"
    using L by simp_all
  have p1: "(2::nat) ^ (L - 1) = 2 ^ 52 * q"
    unfolding q_def by (subst e1) (rule power_add)
  have p2: "(2::nat) ^ L = 2 ^ 53 * q"
    unfolding q_def by (subst e2) (rule power_add)
  have q0: "0 < q" by (simp add: q_def)
  have "2 ^ 52 * q \<le> a"
    using bitLength_lower [OF a0] unfolding L_def [symmetric] p1 .
  then have lo1: "2 ^ 52 \<le> lo"
    unfolding lo_def using q0 by (simp add: less_eq_div_iff_mult_less_eq)
  have "a < 2 ^ 53 * q"
    using bitLength_upper [of a] unfolding L_def [symmetric] p2 .
  then have lo2: "lo < 2 ^ 53"
    unfolding lo_def using q0 by (simp add: div_less_iff_less_mult)
  have m1: "lo \<le> m" and m2: "m \<le> lo + 1"
    by (simp_all add: m_def)
  have n: "nearest a = m * q"
    unfolding nearest_def Let_def L_def [symmetric] q_def [symmetric] lo_def [symmetric]
      m_def [symmetric] ..
  show ?thesis
    using that [OF L_def [symmetric] L q_def lo_def lo1 lo2 m1 m2 n p1 p2 m_def] .
qed

lemma nearest_bounds:
  assumes a: "2 ^ 53 \<le> a"
  shows "2 ^ (bitLength a - 1) \<le> nearest a" and "nearest a \<le> 2 ^ bitLength a"
    and "2 ^ 53 \<le> nearest a"
proof -
  from a obtain L q lo m where s: "bitLength a = L" "53 < L" "2 ^ 52 \<le> lo" "lo < 2 ^ 53"
      "lo \<le> m" "m \<le> lo + 1" "nearest a = m * q" "2 ^ (L - 1) = 2 ^ 52 * q" "2 ^ L = 2 ^ 53 * q"
    by (rule nearest_shape)
  have "2 ^ 52 * q \<le> m * q"
    using s(3,5) by (intro mult_right_mono) simp_all
  then show lower: "2 ^ (bitLength a - 1) \<le> nearest a"
    unfolding s(1) s(7) s(8) .
  have "m \<le> 2 ^ 53"
    using s(4,6) by simp
  then have "m * q \<le> 2 ^ 53 * q"
    by (intro mult_right_mono) simp_all
  then show "nearest a \<le> 2 ^ bitLength a"
    unfolding s(1) s(7) s(9) .
  have "(2::nat) ^ 53 \<le> 2 ^ (L - 1)"
    using s(2) by (intro power_increasing) simp_all
  then show "2 ^ 53 \<le> nearest a"
    using lower unfolding s(1) by (rule order_trans)
qed

lemma nearest_mono:
  assumes a: "2 ^ 53 \<le> a" and ab: "a \<le> b"
  shows "nearest a \<le> nearest b"
proof -
  have b: "2 ^ 53 \<le> b"
    using a ab by (rule order_trans)
  from a obtain L q lo m where s: "bitLength a = L" "53 < L" "q = 2 ^ (L - 53)" "lo = a div q"
      "2 ^ 52 \<le> lo" "lo < 2 ^ 53" "lo \<le> m" "m \<le> lo + 1" "nearest a = m * q"
      "2 ^ (L - 1) = 2 ^ 52 * q" "2 ^ L = 2 ^ 53 * q"
      "m = (if 2 * (a mod q) < q then lo
            else if q < 2 * (a mod q) then lo + 1
            else if even lo then lo else lo + 1)"
    by (rule nearest_shape)
  from b obtain L' q' lo' m' where t: "bitLength b = L'" "53 < L'" "q' = 2 ^ (L' - 53)"
      "lo' = b div q'"
      "2 ^ 52 \<le> lo'" "lo' < 2 ^ 53" "lo' \<le> m'" "m' \<le> lo' + 1" "nearest b = m' * q'"
      "2 ^ (L' - 1) = 2 ^ 52 * q'" "2 ^ L' = 2 ^ 53 * q'"
      "m' = (if 2 * (b mod q') < q' then lo'
            else if q' < 2 * (b mod q') then lo' + 1
            else if even lo' then lo' else lo' + 1)"
    by (rule nearest_shape)
  have a0: "0 < a"
    using a by (simp add: order_less_le_trans [of 0 "2 ^ 53" a])
  have "(2::nat) ^ (L - 1) \<le> a"
    using bitLength_lower [OF a0] unfolding s(1) .
  also note ab
  also have "b < 2 ^ L'"
    using bitLength_upper [of b] unfolding t(1) .
  finally have "L - 1 < L'"
    by (rule power_less_imp_less_exp [rotated]) simp
  then have LL: "L \<le> L'" by simp
  show ?thesis
  proof (cases "L = L'")
    case False
    with LL have "L \<le> L' - 1" by simp
    then have "(2::nat) ^ L \<le> 2 ^ (L' - 1)"
      by (intro power_increasing) simp_all
    with nearest_bounds(2) [OF a] nearest_bounds(1) [OF b] show ?thesis
      unfolding s(1) t(1) by linarith
  next
    case True
    then have qq: "q' = q" by (simp add: s(3) t(3))
    have q0: "0 < q" by (simp add: s(3))
    have lolo: "lo \<le> lo'"
      unfolding s(4) t(4) qq using ab by (rule div_le_mono)
    have "m \<le> m'"
    proof (cases "lo = lo'")
      case False
      with lolo have "lo + 1 \<le> lo'" by simp
      with s(8) t(7) show ?thesis by linarith
    next
      case True
      have ea: "a = lo * q + a mod q"
        unfolding s(4) by simp
      have eb: "b = lo * q + b mod q"
        unfolding True t(4) qq by simp
      from ab have "lo * q + a mod q \<le> lo * q + b mod q"
        by (subst ea [symmetric], subst eb [symmetric])
      then have "a mod q \<le> b mod q" by simp
      then show ?thesis
        unfolding s(12) t(12) qq True [symmetric] by auto
    qed
    then show ?thesis
      unfolding s(9) t(9) qq by (intro mult_right_mono) simp_all
  qed
qed

lemma nearest_idem:
  assumes a: "2 ^ 53 \<le> a"
  shows "nearest (nearest a) = nearest a"
proof -
  from a obtain L q lo m where s: "bitLength a = L" "53 < L" "q = 2 ^ (L - 53)" "lo = a div q"
      "2 ^ 52 \<le> lo" "lo < 2 ^ 53" "lo \<le> m" "m \<le> lo + 1" "nearest a = m * q"
      "2 ^ (L - 1) = 2 ^ 52 * q" "2 ^ L = 2 ^ 53 * q"
    by (rule nearest_shape)
  have q0: "0 < q" by (simp add: s(3))
  have lowm: "2 ^ 52 \<le> m" using s(5,7) by simp
  have low: "2 ^ (L - 1) \<le> m * q"
    unfolding s(10) using lowm by (intro mult_right_mono) simp_all
  obtain k where k: "L = Suc k" using s(2) by (cases L) simp_all
  show ?thesis
  proof (cases "m < 2 ^ 53")
    case True
    then have "m * q < 2 ^ 53 * q"
      using q0 by simp
    then have up: "m * q < 2 ^ Suc k"
      unfolding s(11) [symmetric] k .
    have "2 ^ k \<le> m * q"
      using low unfolding k by simp
    then have bl: "bitLength (m * q) = L"
      unfolding k using up by (rule bitLength_unique)
    have "nearest (m * q) = m * q"
      unfolding nearest_def Let_def bl s(3) [symmetric] using q0 by simp
    then show ?thesis unfolding s(9) .
  next
    case False
    with s(6,8) have m: "m = 2 ^ 53" by simp
    have v: "m * q = 2 ^ Suc k"
      unfolding m s(11) [symmetric] k ..
    have bl: "bitLength (m * q) = Suc (Suc k)"
      unfolding v by (rule bitLength_unique) simp_all
    have e: "Suc (Suc k) - 53 = Suc (L - 53)"
      using s(2) k by simp
    have q2: "(2::nat) ^ (Suc (Suc k) - 53) = 2 * q"
      unfolding e s(3) by simp
    have mq: "m * q = 2 ^ 52 * (2 * q)"
      unfolding m by simp
    have d: "m * q div (2 * q) = 2 ^ 52" "m * q mod (2 * q) = 0"
      unfolding mq using q0 by simp_all
    have "nearest (m * q) = m * q"
      unfolding nearest_def Let_def bl q2 d using q0 by (simp add: mq)
    then show ?thesis unfolding s(9) .
  qed
qed

lemma roundToDouble_nat:
  assumes "0 \<le> n"
  shows "roundToDouble n =
     (if n < 2 ^ 53 then Finite n
      else if 2 ^ 1024 \<le> nearest (nat n) then PosInfinity
      else Finite (int (nearest (nat n))))"
proof (cases "n < 2 ^ 53")
  case True
  with assms show ?thesis
    by (simp add: roundToDouble_def Let_def nat_less_iff)
next
  case False
  then have n0: "0 < n"
    by (simp add: not_less order_less_le_trans [of 0 "2 ^ 53" n])
  then have an: "\<bar>n\<bar> = n" and sg: "sgn n = 1" by simp_all
  have nb: "\<not> nat n < 2 ^ 53"
    using False by (simp add: nat_less_iff)
  show ?thesis
    unfolding roundToDouble_def nearest_def Let_def an sg
    using False nb n0 by (simp only: if_False if_True mult_1)
qed

lemma nat_big: "2 ^ 53 \<le> n \<Longrightarrow> 2 ^ 53 \<le> nat n"
  by (simp add: le_nat_iff)

lemma roundToDouble_mono:
  assumes a0: "0 \<le> a" and ab: "a \<le> b"
  shows "jsLe (roundToDouble a) (roundToDouble b)"
proof -
  have b0: "0 \<le> b" using a0 ab by (rule order_trans)
  show ?thesis
  proof (cases "b < 2 ^ 53")
    case True
    with ab have "a < 2 ^ 53" by (rule order_le_less_trans)
    with True ab show ?thesis
      by (simp only: roundToDouble_nat [OF a0] roundToDouble_nat [OF b0] if_True jsLe.simps)
  next
    case False
    then have bb: "2 ^ 53 \<le> nat b" by (simp add: nat_big)
    have rb: "roundToDouble b =
        (if 2 ^ 1024 \<le> nearest (nat b) then PosInfinity else Finite (int (nearest (nat b))))"
      using False by (simp only: roundToDouble_nat [OF b0] if_False)
    show ?thesis
    proof (cases "a < 2 ^ 53")
      case True
      then have ra: "roundToDouble a = Finite a"
        by (simp only: roundToDouble_nat [OF a0] if_True)
      have "a < int (nearest (nat b))"
        using True int_big [OF nearest_bounds(3) [OF bb]] by (rule order_less_le_trans)
      then show ?thesis
        unfolding ra rb by (cases "2 ^ 1024 \<le> nearest (nat b)") (simp_all only: if_True if_False jsLe.simps less_imp_le)
    next
      case False
      then have aa: "2 ^ 53 \<le> nat a" by (simp add: nat_big)
      have ra: "roundToDouble a =
          (if 2 ^ 1024 \<le> nearest (nat a) then PosInfinity else Finite (int (nearest (nat a))))"
        using False by (simp only: roundToDouble_nat [OF a0] if_False)
      have "nat a \<le> nat b" using ab by simp
      with aa have le: "nearest (nat a) \<le> nearest (nat b)" by (rule nearest_mono)
      show ?thesis
      proof (cases "2 ^ 1024 \<le> nearest (nat b)")
        case True
        then show ?thesis
          unfolding ra rb by (cases "2 ^ 1024 \<le> nearest (nat a)") (simp_all only: if_True if_False jsLe.simps)
      next
        case False
        with le have "\<not> 2 ^ 1024 \<le> nearest (nat a)" by linarith
        with False le show ?thesis
          unfolding ra rb by (simp only: if_False jsLe.simps of_nat_le_iff)
      qed
    qed
  qed
qed

lemma roundToDouble_nonNegative: "0 \<le> n \<Longrightarrow> nonNegative (roundToDouble n)"
  by (cases n rule: roundToDouble_cases) simp_all

lemma roundToDouble_representable:
  assumes "0 \<le> n"
  shows "representable (roundToDouble n)"
proof (cases "n < 2 ^ 53")
  case True
  then have "roundToDouble n = Finite n"
    by (simp only: roundToDouble_nat [OF assms] if_True)
  then show ?thesis by simp
next
  case False
  then have nn: "2 ^ 53 \<le> nat n" by (simp add: nat_big)
  have r: "roundToDouble n =
      (if 2 ^ 1024 \<le> nearest (nat n) then PosInfinity else Finite (int (nearest (nat n))))"
    using False by (simp only: roundToDouble_nat [OF assms] if_False)
  show ?thesis
  proof (cases "2 ^ 1024 \<le> nearest (nat n)")
    case True
    then show ?thesis unfolding r by (simp only: if_True representable.simps)
  next
    case False
    define v where "v = nearest (nat n)"
    have v: "2 ^ 53 \<le> v" unfolding v_def using nn by (rule nearest_bounds(3))
    have iv: "nearest v = v" unfolding v_def using nn by (rule nearest_idem)
    have "\<not> int v < 2 ^ 53" using int_big [OF v] by (simp only: not_less)
    then have "roundToDouble (int v) = Finite (int v)"
      using False unfolding v_def [symmetric]
      by (simp only: roundToDouble_nat [of "int v", OF of_nat_0_le_iff] nat_int iv if_False)
    then show ?thesis
      unfolding r v_def [symmetric] using False
      by (simp only: v_def [symmetric] if_False representable.simps)
  qed
qed

lemma jsLe_PosInfinity: "x \<noteq> NaN \<Longrightarrow> jsLe x PosInfinity"
  by (cases x) simp_all

lemma nonNegative_not_NaN: "nonNegative x \<Longrightarrow> x \<noteq> NaN"
  by (cases x) simp_all

lemma jsAdd_nonNegative: "nonNegative x \<Longrightarrow> 0 \<le> c \<Longrightarrow> nonNegative (jsAdd x (Finite c))"
  by (cases x) (simp_all add: roundToDouble_nonNegative)

lemma jsAdd_representable: "nonNegative x \<Longrightarrow> 0 \<le> c \<Longrightarrow> representable (jsAdd x (Finite c))"
  by (cases x) (simp_all add: roundToDouble_representable)

lemma jsAdd_mono:
  assumes "nonNegative x" and "jsLe x y" and "0 \<le> a" and "a \<le> b"
  shows "jsLe (jsAdd x (Finite a)) (jsAdd y (Finite b))"
proof (cases y)
  case (Finite t)
  with assms(1,2) obtain s where x: "x = Finite s" and st: "s \<le> t"
    by (cases x) simp_all
  from assms(1) x have "0 \<le> s" by simp
  with assms(3) have "0 \<le> s + a" by simp
  moreover have "s + a \<le> t + b" using st assms(4) by simp
  ultimately show ?thesis
    unfolding x Finite jsAdd.simps by (rule roundToDouble_mono)
next
  case PosInfinity
  have "nonNegative (jsAdd x (Finite a))"
    using assms(1,3) by (rule jsAdd_nonNegative)
  then show ?thesis
    unfolding PosInfinity by (simp add: jsLe_PosInfinity nonNegative_not_NaN)
next
  case NegInfinity
  with assms(1,2) show ?thesis by (cases x) simp_all
next
  case NaN
  with assms(2) show ?thesis by (cases x) simp_all
qed

lemma jsAdd_increasing:
  assumes "nonNegative x" and "representable x" and "0 \<le> c"
  shows "jsLe x (jsAdd x (Finite c))"
proof (cases x)
  case (Finite s)
  with assms(1) have s: "0 \<le> s" by simp
  have "jsLe (roundToDouble s) (roundToDouble (s + c))"
    using s assms(3) by (intro roundToDouble_mono) simp_all
  with assms(2) show ?thesis
    unfolding Finite by simp
next
  case PosInfinity
  then show ?thesis by simp
next
  case NegInfinity
  with assms(1) show ?thesis by simp
next
  case NaN
  with assms(1) show ?thesis by simp
qed


lemma groupStep_keyed: "groupStep = keyedStep group_r"
  by (intro ext) (simp add: groupStep_def keyedStep_def Let_def)

lemma provinceStep_keyed: "provinceStep = keyedStep (\<lambda>r. orUnknown (province r))"
  by (intro ext) (simp add: provinceStep_def keyedStep_def Let_def)

lemma accountStep_keyed: "accountStep = keyedStep (\<lambda>r. orUnknown (account r))"
  by (intro ext) (simp add: accountStep_def keyedStep_def Let_def)

subsection \<open>The sort\<close>

lemma mset_insertBy: "mset (insertBy cmp x ys) = add_mset x (mset ys)"
  by (induction ys) simp_all

lemma mset_sortBy: "mset (sortBy cmp xs) = mset xs"
  by (induction xs) (simp_all add: sortBy_def mset_insertBy)

lemma set_sortBy: "set (sortBy cmp xs) = set xs"
  using mset_sortBy [of cmp xs] by (metis set_mset_mset)

lemma set_insertBy: "set (insertBy cmp x ys) = insert x (set ys)"
  using mset_insertBy [of cmp x ys] by (metis set_mset_mset set_mset_add_mset_insert)

text \<open>Rows of equal total keep their order in the insertion sort.\<close>

lemma filter_insertBy:
  "filter (\<lambda>r. totalOutbound r = t) (insertBy byTotalOutboundDesc x ys) =
     (if totalOutbound x = t then x # filter (\<lambda>r. totalOutbound r = t) ys
      else filter (\<lambda>r. totalOutbound r = t) ys)"
  by (induction ys) (auto simp: byTotalOutboundDesc_def jsGt0_jsSub_same)

lemma sortBy_stable:
  "filter (\<lambda>r. totalOutbound r = t) (sortBy byTotalOutboundDesc xs) =
     filter (\<lambda>r. totalOutbound r = t) xs"
  by (induction xs) (simp_all add: sortBy_def filter_insertBy)

text \<open>Without a \<open>NaN\<close> among the totals the comparator is an order, and the result is sorted.\<close>

lemma sorted_insertBy:
  assumes "sorted_wrt (\<lambda>a b. jsLe (totalOutbound b) (totalOutbound a)) ys"
    and "totalOutbound x \<noteq> NaN" and "\<forall>y\<in>set ys. totalOutbound y \<noteq> NaN"
  shows "sorted_wrt (\<lambda>a b. jsLe (totalOutbound b) (totalOutbound a))
           (insertBy byTotalOutboundDesc x ys)"
  using assms
proof (induction ys)
  case Nil
  then show ?case by simp
next
  case (Cons y ys)
  show ?case
  proof (cases "jsGt0 (byTotalOutboundDesc x y)")
    case True
    then have "\<not> jsLe (totalOutbound y) (totalOutbound x)"
      using Cons.prems by (simp add: byTotalOutboundDesc_def jsGt0_jsSub)
    then have yx: "jsLe (totalOutbound x) (totalOutbound y)"
      using Cons.prems jsLe_total [of "totalOutbound x" "totalOutbound y"] by auto
    have "sorted_wrt (\<lambda>a b. jsLe (totalOutbound b) (totalOutbound a))
            (insertBy byTotalOutboundDesc x ys)"
      using Cons.prems by (intro Cons.IH) simp_all
    with True yx Cons.prems(1) show ?thesis
      by (simp add: set_insertBy)
  next
    case False
    then have xy: "jsLe (totalOutbound y) (totalOutbound x)"
      using Cons.prems by (simp add: byTotalOutboundDesc_def jsGt0_jsSub)
    have "jsLe (totalOutbound z) (totalOutbound x)" if "z \<in> set ys" for z
      using that Cons.prems(1) xy jsLe_trans [of "totalOutbound z" "totalOutbound y"] by auto
    with False xy Cons.prems(1) show ?thesis
      by simp
  qed
qed

lemma sortBy_sorted:
  "\<forall>x\<in>set xs. totalOutbound x \<noteq> NaN \<Longrightarrow>
     sorted_wrt (\<lambda>a b. jsLe (totalOutbound b) (totalOutbound a)) (sortBy byTotalOutboundDesc xs)"
proof (induction xs)
  case Nil
  then show ?case by (simp add: sortBy_def)
next
  case (Cons x xs)
  have "sorted_wrt (\<lambda>a b. jsLe (totalOutbound b) (totalOutbound a))
          (insertBy byTotalOutboundDesc x (sortBy byTotalOutboundDesc xs))"
    using Cons by (intro sorted_insertBy) (simp_all add: set_sortBy)
  then show ?case by (simp add: sortBy_def)
qed

subsection \<open>The map\<close>

lemma map_of_mapSet: "map_of (mapSet m k v) = (map_of m)(k \<mapsto> v)"
  by (induction m) (auto simp: fun_eq_iff)

lemma keys_mapSet:
  "map fst (mapSet m k v) = (if k \<in> set (map fst m) then map fst m else map fst m @ [k])"
proof (induction m)
  case Nil
  show ?case by simp
next
  case (Cons e m)
  obtain k' v' where e: "e = (k', v')" by (cases e)
  show ?case
    using Cons.IH by (cases "k' = k") (simp_all add: e)
qed

lemma distinct_mapSet: "distinct (map fst m) \<Longrightarrow> distinct (map fst (mapSet m k v))"
  by (simp add: keys_mapSet)

lemma entries_by_key:
  "(\<And>k v. (k, v) \<in> set m \<Longrightarrow> v = F k) \<Longrightarrow> m = map (\<lambda>k. (k, F k)) (map fst m)"
  by (induction m) auto

subsection \<open>First occurrences\<close>

lemma remdups_append_mem: "x \<in> set xs \<Longrightarrow> remdups (ys @ x # xs) = remdups (ys @ xs)"
  by (induction ys) auto

lemma firstSeen_seen: "x \<in> set xs \<Longrightarrow> firstSeen (xs @ x # ys) = firstSeen (xs @ ys)"
  by (simp add: firstSeen_def remdups_append_mem)

lemma firstSeen_distinct_id: "distinct xs \<Longrightarrow> firstSeen xs = xs"
  by (simp add: firstSeen_def distinct_remdups_id)

lemma set_firstSeen: "set (firstSeen xs) = set xs"
  by (simp add: firstSeen_def)

lemma distinct_firstSeen: "distinct (firstSeen xs)"
  by (simp add: firstSeen_def)

subsection \<open>The map built by a keyed loop\<close>

lemma keys_fold_keyedStep:
  "distinct (map fst m) \<Longrightarrow>
   map fst (fold (keyedStep keyf) rs m) = firstSeen (map fst m @ map keyf rs)"
proof (induction rs arbitrary: m)
  case Nil
  then show ?case by (simp add: firstSeen_distinct_id)
next
  case (Cons r rs)
  have d: "distinct (map fst (keyedStep keyf r m))"
    unfolding keyedStep_def using Cons.prems by (rule distinct_mapSet)
  show ?case
  proof (cases "keyf r \<in> set (map fst m)")
    case True
    then show ?thesis
      using Cons.IH [OF d] by (simp add: keyedStep_def keys_mapSet firstSeen_seen)
  next
    case False
    then show ?thesis
      using Cons.IH [OF d] by (simp add: keyedStep_def keys_mapSet)
  qed
qed

lemma addRecord_sumsOf: "addRecord (sumsOf rs) r = sumsOf (rs @ [r])"
  by (simp add: addRecord_def sumsOf_def jsSum_def)

lemma addRecord_empty: "addRecord emptySums r = sumsOf [r]"
  by (simp add: addRecord_def sumsOf_def emptySums_def jsSum_def)

lemma map_of_keyedStep:
  "map_of (keyedStep keyf r m) k =
     (if k = keyf r then Some (addRecord (getOrEmpty m k) r) else map_of m k)"
  by (simp add: keyedStep_def map_of_mapSet)

lemma filter_key_absent: "k \<notin> keyf ` set rs \<Longrightarrow> filter (\<lambda>x. keyf x = k) rs = []"
  by (induction rs) auto

lemma map_of_fold_keyedStep:
  "map_of (fold (keyedStep keyf) rs []) k =
     (if k \<in> keyf ` set rs then Some (sumsOf (filter (\<lambda>r. keyf r = k) rs)) else None)"
proof (induction rs rule: rev_induct)
  case Nil
  then show ?case by simp
next
  case (snoc r rs)
  let ?m = "fold (keyedStep keyf) rs []"
  have step: "map_of (fold (keyedStep keyf) (rs @ [r]) []) k =
      (if k = keyf r then Some (addRecord (getOrEmpty ?m k) r) else map_of ?m k)"
    by (simp add: map_of_keyedStep)
  show ?case
  proof (cases "k = keyf r")
    case False
    then have "keyf r \<noteq> k" by blast
    with False show ?thesis
      unfolding step using snoc.IH by simp
  next
    case True
    show ?thesis
    proof (cases "k \<in> keyf ` set rs")
      case True
      with snoc.IH have "getOrEmpty ?m k = sumsOf (filter (\<lambda>r. keyf r = k) rs)"
        by (simp add: getOrEmpty_def)
      with \<open>k = keyf r\<close> show ?thesis
        unfolding step by (simp add: addRecord_sumsOf)
    next
      case False
      with snoc.IH have "getOrEmpty ?m k = emptySums"
        by (simp add: getOrEmpty_def)
      with \<open>k = keyf r\<close> False show ?thesis
        unfolding step by (simp add: addRecord_empty filter_key_absent)
    qed
  qed
qed

lemma entries_fold_keyedStep:
  "fold (keyedStep keyf) rs [] =
     map (\<lambda>k. (k, sumsOf (filter (\<lambda>r. keyf r = k) rs))) (firstSeen (map keyf rs))"
proof -
  let ?m = "fold (keyedStep keyf) rs []"
  let ?F = "\<lambda>k. sumsOf (filter (\<lambda>r. keyf r = k) rs)"
  have keys: "map fst ?m = firstSeen (map keyf rs)"
    using keys_fold_keyedStep [of "[]" keyf rs] by simp
  then have dist: "distinct (map fst ?m)"
    by (simp add: distinct_firstSeen)
  have vals: "v = ?F k" if "(k, v) \<in> set ?m" for k v
  proof -
    from that dist have "map_of ?m k = Some v" by simp
    then show ?thesis
      by (simp add: map_of_fold_keyedStep split: if_splits)
  qed
  have "?m = map (\<lambda>k. (k, ?F k)) (map fst ?m)"
    using vals by (rule entries_by_key)
  then show ?thesis
    using keys by simp
qed

section \<open>The overall reduction\<close>

lemma fold_overallStep:
  "fold overallStep rs s =
     \<lparr> totalOutbound = foldl jsAdd (totalOutbound s) (map total_outbound_count rs),
       blackOutbound = foldl jsAdd (blackOutbound s) (map black_outbound_count rs),
       totalPickup = foldl jsAdd (totalPickup s) (map total_pickup_count rs),
       blackPickup = foldl jsAdd (blackPickup s) (map black_pickup_count rs),
       totalPay = foldl jsAdd (totalPay s) (map total_pay_count rs),
       blackPay = foldl jsAdd (blackPay s) (map black_pay_count rs) \<rparr>"
  by (induction rs arbitrary: s) (simp_all add: overallStep_def)

lemma fold_overallStepExt:
  "fold overallStepExt rs (s, tc, bc) =
     (fold overallStep rs s,
      foldl jsAdd tc (map total_complain_count rs),
      foldl jsAdd bc (map black_complain_count rs))"
  by (induction rs arbitrary: s tc bc) (simp_all add: overallStepExt_def)

lemma overall_sums:
  "totalOutbound (calculateOverallStats rs) = jsSum (map total_outbound_count rs)"
  "blackOutbound (calculateOverallStats rs) = jsSum (map black_outbound_count rs)"
  "totalPickup (calculateOverallStats rs) = jsSum (map total_pickup_count rs)"
  "blackPickup (calculateOverallStats rs) = jsSum (map black_pickup_count rs)"
  "totalPay (calculateOverallStats rs) = jsSum (map total_pay_count rs)"
  "blackPay (calculateOverallStats rs) = jsSum (map black_pay_count rs)"
  by (simp_all add: calculateOverallStats_def fold_overallStep emptySums_def Let_def jsSum_def)

lemma overallExt_sums:
  "totalOutbound (calculateOverallStatsExt rs) = jsSum (map total_outbound_count rs)"
  "blackOutbound (calculateOverallStatsExt rs) = jsSum (map black_outbound_count rs)"
  "totalPickup (calculateOverallStatsExt rs) = jsSum (map total_pickup_count rs)"
  "blackPickup (calculateOverallStatsExt rs) = jsSum (map black_pickup_count rs)"
  "totalPay (calculateOverallStatsExt rs) = jsSum (map total_pay_count rs)"
  "blackPay (calculateOverallStatsExt rs) = jsSum (map black_pay_count rs)"
  "totalComplain (calculateOverallStatsExt rs) = jsSum (map total_complain_count rs)"
  "blackComplain (calculateOverallStatsExt rs) = jsSum (map black_complain_count rs)"
  by (simp_all add: calculateOverallStatsExt_def fold_overallStepExt fold_overallStep
      emptySums_def jsSum_def)

subsection \<open>Exact sums\<close>

lemma foldl_jsAdd_exact:
  "list_all isFinite xs \<Longrightarrow> \<bar>a\<bar> + sum_list (map (\<lambda>x. \<bar>finiteValue x\<bar>) xs) < 2 ^ 53 \<Longrightarrow>
     foldl jsAdd (Finite a) xs = Finite (a + sum_list (map finiteValue xs))"
proof (induction xs arbitrary: a)
  case Nil
  then show ?case by simp
next
  case (Cons x xs)
  from Cons.prems(1) obtain b where x: "x = Finite b"
    by (cases x) simp_all
  have le: "\<bar>a + b\<bar> \<le> \<bar>a\<bar> + \<bar>b\<bar>" by (rule abs_triangle_ineq)
  have nn: "0 \<le> sum_list (map (\<lambda>x. \<bar>finiteValue x\<bar>) xs)"
    by (rule sum_list_nonneg) auto
  from Cons.prems(2) have bound: "\<bar>a\<bar> + \<bar>b\<bar> + sum_list (map (\<lambda>x. \<bar>finiteValue x\<bar>) xs) < 2 ^ 53"
    by (simp add: x)
  with le nn have "\<bar>a + b\<bar> < 2 ^ 53" by linarith
  then have step: "jsAdd (Finite a) x = Finite (a + b)"
    by (simp add: x roundToDouble_exact)
  have "foldl jsAdd (Finite (a + b)) xs = Finite (a + b + sum_list (map finiteValue xs))"
    using Cons.prems(1) bound le by (intro Cons.IH) simp_all
  with step show ?case by (simp add: x)
qed

lemma jsSum_safe: "safeCounter f rs \<Longrightarrow> jsSum (map f rs) = exactSum f rs"
  using foldl_jsAdd_exact [of "map f rs" 0]
  by (simp add: safeCounter_def jsSum_def exactSum_def list_all_iff comp_def)

lemma sum_list_filter_le:
  fixes g :: "'a \<Rightarrow> int"
  assumes "\<And>x. 0 \<le> g x"
  shows "sum_list (map g (filter P xs)) \<le> sum_list (map g xs)"
  by (induction xs) (simp_all add: assms add_increasing)

lemma safeCounter_filter: "safeCounter f rs \<Longrightarrow> safeCounter f (filter P rs)"
  using sum_list_filter_le [of "\<lambda>r. \<bar>finiteValue (f r)\<bar>" P rs]
  by (simp add: safeCounter_def list_all_iff)

lemma sum_list_delta:
  fixes c :: int
  shows "distinct ks \<Longrightarrow> sum_list (map (\<lambda>k. if k = a then c else 0) ks) = (if a \<in> set ks then c else 0)"
  by (induction ks) auto

lemma sum_list_by_key:
  fixes g :: "'a \<Rightarrow> int"
  assumes "distinct ks" and "keyf ` set rs \<subseteq> set ks"
  shows "sum_list (map (\<lambda>k. sum_list (map g (filter (\<lambda>r. keyf r = k) rs))) ks) = sum_list (map g rs)"
  using assms(2)
proof (induction rs)
  case Nil
  show ?case by simp
next
  case (Cons r rs)
  have "sum_list (map (\<lambda>k. sum_list (map g (filter (\<lambda>x. keyf x = k) (r # rs)))) ks) =
      sum_list (map (\<lambda>k. (if k = keyf r then g r else 0)
                          + sum_list (map g (filter (\<lambda>x. keyf x = k) rs))) ks)"
    by (intro arg_cong [where f = sum_list] map_cong refl) auto
  also have "\<dots> = sum_list (map (\<lambda>k. if k = keyf r then g r else 0) ks)
      + sum_list (map (\<lambda>k. sum_list (map g (filter (\<lambda>x. keyf x = k) rs))) ks)"
    by (simp add: sum_list_addf)
  also have "\<dots> = g r + sum_list (map g rs)"
    using Cons assms(1) by (simp add: sum_list_delta)
  finally show ?case by simp
qed

section \<open>The maps of the grouped reductions\<close>

lemma groupMap_entries:
  "fold groupStep rs [] =
     map (\<lambda>k. (k, sumsOf (filter (\<lambda>r. group_r r = k) rs))) (firstSeen (map group_r rs))"
  by (simp only: groupStep_keyed entries_fold_keyedStep)

lemma provinceMap_entries:
  "provinceMap rs g =
     map (\<lambda>k. (k, sumsOf (filter (\<lambda>r. orUnknown (province r) = k) (filterByGroup rs g))))
       (firstSeen (map (\<lambda>r. orUnknown (province r)) (filterByGroup rs g)))"
  by (simp only: provinceMap_def provinceStep_keyed entries_fold_keyedStep)

lemma accountMap_entries:
  "accountMap rs =
     map (\<lambda>k. (k, sumsOf (filter (\<lambda>r. orUnknown (account r) = k) rs)))
       (firstSeen (map (\<lambda>r. orUnknown (account r)) rs))"
  by (simp only: accountMap_def accountStep_keyed entries_fold_keyedStep)

text \<open>
  The sums of the buckets of the account and province reduction are those of a keyed loop
  on the composite key.
\<close>

lemma map_mapSet:
  "map (\<lambda>e. (fst e, h (snd e))) (mapSet m k v) = mapSet (map (\<lambda>e. (fst e, h (snd e))) m) k (h v)"
  by (induction m) auto

lemma map_of_map_snd:
  "map_of (map (\<lambda>e. (fst e, h (snd e))) m) k = map_option h (map_of m k)"
  by (induction m) auto

lemma sumsPart_accountProvinceStep:
  "map (\<lambda>e. (fst e, sumsPart (snd e))) (accountProvinceStep r m) =
     keyedStep accountProvinceKey r (map (\<lambda>e. (fst e, sumsPart (snd e))) m)"
proof -
  have get: "getOrEmpty (map (\<lambda>e. (fst e, sumsPart (snd e))) m) (accountProvinceKey r) =
      (case map_of m (accountProvinceKey r) of Some e \<Rightarrow> sumsPart e | None \<Rightarrow> emptySums)"
    by (simp add: getOrEmpty_def map_of_map_snd split: option.split)
  show ?thesis
    unfolding accountProvinceStep_def keyedStep_def Let_def map_mapSet get
    by (cases "map_of m (accountProvinceKey r)")
       (simp_all add: sumsPart_def addRecord_def emptySums_def)
qed

lemma sumsPart_fold_accountProvinceStep:
  "map (\<lambda>e. (fst e, sumsPart (snd e))) (fold accountProvinceStep rs m) =
     fold (keyedStep accountProvinceKey) rs (map (\<lambda>e. (fst e, sumsPart (snd e))) m)"
  by (induction rs arbitrary: m) (simp_all add: sumsPart_accountProvinceStep)

lemma accountProvinceMap_entries:
  "map (\<lambda>e. (fst e, sumsPart (snd e))) (accountProvinceMap rs a) =
     map (\<lambda>k. (k, sumsOf (filter (\<lambda>r. accountProvinceKey r = k) (filterByAccount rs a))))
       (firstSeen (map accountProvinceKey (filterByAccount rs a)))"
  using sumsPart_fold_accountProvinceStep [of "filterByAccount rs a" "[]"]
  by (simp add: accountProvinceMap_def entries_fold_keyedStep)

lemma accountProvinceMap_keys:
  "map fst (accountProvinceMap rs a) =
     firstSeen (map accountProvinceKey (filterByAccount rs a))"
proof -
  have "map fst (accountProvinceMap rs a) =
      map fst (map (\<lambda>e. (fst e, sumsPart (snd e))) (accountProvinceMap rs a))"
    by (simp add: comp_def)
  also have "\<dots> = firstSeen (map accountProvinceKey (filterByAccount rs a))"
    unfolding accountProvinceMap_entries by (simp add: comp_def)
  finally show ?thesis .
qed

lemma accountProvinceMap_sums:
  "map (\<lambda>e. sumsPart (snd e)) (accountProvinceMap rs a) =
     map (\<lambda>k. sumsOf (filter (\<lambda>r. accountProvinceKey r = k) (filterByAccount rs a)))
       (firstSeen (map accountProvinceKey (filterByAccount rs a)))"
proof -
  have "map (\<lambda>e. sumsPart (snd e)) (accountProvinceMap rs a) =
      map snd (map (\<lambda>e. (fst e, sumsPart (snd e))) (accountProvinceMap rs a))"
    by (simp add: comp_def)
  also have "\<dots> = map (\<lambda>k. sumsOf (filter (\<lambda>r. accountProvinceKey r = k) (filterByAccount rs a)))
       (firstSeen (map accountProvinceKey (filterByAccount rs a)))"
    unfolding accountProvinceMap_entries by (simp add: comp_def)
  finally show ?thesis .
qed

subsection \<open>The list of the totals of the rows\<close>

lemma totalOutbound_sumsOf: "totalOutbound (sumsOf rs) = jsSum (map total_outbound_count rs)"
  by (simp add: sumsOf_def)

lemma totalOutbound_rows:
  "totalOutbound (groupRow (k, s)) = totalOutbound s"
  "totalOutbound (provinceRow (k, s)) = totalOutbound s"
  "totalOutbound (accountRow (k, s)) = totalOutbound s"
  "totalOutbound (accountProvinceRow b) = totalOutbound (sumsPart b)"
  by (simp_all add: groupRow_def provinceRow_def accountRow_def accountProvinceRow_def sumsPart_def)

lemma group_totals:
  "map totalOutbound (calculateGroupStats rs) =
     map (\<lambda>k. jsSum (map total_outbound_count (filter (\<lambda>r. group_r r = k) rs)))
       (firstSeen (map group_r rs))"
  by (simp add: calculateGroupStats_def groupMap_entries comp_def totalOutbound_rows
      totalOutbound_sumsOf)

lemma province_totals_unsorted:
  "map totalOutbound (map provinceRow (provinceMap rs g)) =
     map (\<lambda>k. jsSum (map total_outbound_count
            (filter (\<lambda>r. orUnknown (province r) = k) (filterByGroup rs g))))
       (firstSeen (map (\<lambda>r. orUnknown (province r)) (filterByGroup rs g)))"
  by (simp add: provinceMap_entries comp_def totalOutbound_rows totalOutbound_sumsOf)

lemma account_totals_unsorted:
  "map totalOutbound (map accountRow (accountMap rs)) =
     map (\<lambda>k. jsSum (map total_outbound_count (filter (\<lambda>r. orUnknown (account r) = k) rs)))
       (firstSeen (map (\<lambda>r. orUnknown (account r)) rs))"
  by (simp add: accountMap_entries comp_def totalOutbound_rows totalOutbound_sumsOf)

lemma accountProvince_totals_unsorted:
  "map totalOutbound (map accountProvinceRow (map snd (accountProvinceMap rs a))) =
     map (\<lambda>k. jsSum (map total_outbound_count
            (filter (\<lambda>r. accountProvinceKey r = k) (filterByAccount rs a))))
       (firstSeen (map accountProvinceKey (filterByAccount rs a)))"
proof -
  have "map totalOutbound (map accountProvinceRow (map snd (accountProvinceMap rs a))) =
      map totalOutbound (map (\<lambda>e. sumsPart (snd e)) (accountProvinceMap rs a))"
    by (simp add: comp_def totalOutbound_rows)
  then show ?thesis
    unfolding accountProvinceMap_sums by (simp add: comp_def totalOutbound_sumsOf)
qed

text \<open>With safe counters the totals of the rows by key are exact and add up.\<close>

lemma keyed_totals_exact:
  assumes safe: "safeCounter total_outbound_count rs"
    and totals: "map totalOutbound rows =
      map (\<lambda>k. jsSum (map total_outbound_count (filter (\<lambda>r. keyf r = k) rs)))
        (firstSeen (map keyf rs))"
  shows "allFinite rows \<and> exactTotal rows = exactSum total_outbound_count rs"
proof -
  let ?g = "\<lambda>r. finiteValue (total_outbound_count r)"
  let ?ks = "firstSeen (map keyf rs)"
  have ex: "jsSum (map total_outbound_count (filter (\<lambda>r. keyf r = k) rs)) =
      Finite (sum_list (map ?g (filter (\<lambda>r. keyf r = k) rs)))" for k
    using jsSum_safe [OF safeCounter_filter [OF safe]] by (simp add: exactSum_def)
  have tot: "map totalOutbound rows =
      map (\<lambda>k. Finite (sum_list (map ?g (filter (\<lambda>r. keyf r = k) rs)))) ?ks"
    unfolding totals by (simp add: ex)
  have fin: "allFinite rows"
  proof -
    have "list_all isFinite (map totalOutbound rows)"
      unfolding tot by (simp add: list_all_iff)
    then show ?thesis by (simp add: allFinite_def list_all_iff)
  qed
  have "map (\<lambda>row. finiteValue (totalOutbound row)) rows = map finiteValue (map totalOutbound rows)"
    by (simp add: comp_def)
  also have "\<dots> = map (\<lambda>k. sum_list (map ?g (filter (\<lambda>r. keyf r = k) rs))) ?ks"
    unfolding tot by (simp add: comp_def)
  finally have "sum_list (map (\<lambda>row. finiteValue (totalOutbound row)) rows) = sum_list (map ?g rs)"
    using sum_list_by_key [of ?ks keyf rs ?g] by (simp add: distinct_firstSeen set_firstSeen)
  with fin show ?thesis
    by (simp add: exactTotal_def exactSum_def)
qed

lemma exactTotal_sortBy: "exactTotal (sortBy cmp rows) = exactTotal rows"
proof -
  have "mset (map (\<lambda>row. finiteValue (totalOutbound row)) (sortBy cmp rows)) =
      mset (map (\<lambda>row. finiteValue (totalOutbound row)) rows)"
    by (simp add: mset_sortBy)
  then have "sum_mset (mset (map (\<lambda>row. finiteValue (totalOutbound row)) (sortBy cmp rows))) =
      sum_mset (mset (map (\<lambda>row. finiteValue (totalOutbound row)) rows))"
    by (rule arg_cong)
  then show ?thesis
    by (simp only: exactTotal_def sum_mset_sum_list)
qed

lemma allFinite_sortBy: "allFinite (sortBy cmp rows) = allFinite rows"
  by (simp add: allFinite_def list_all_iff set_sortBy)

lemma filterBy_None: "filterByGroup rs None = rs" "filterByAccount rs None = rs"
  by (simp_all add: filterByGroup_def filterByAccount_def truthy_def)

lemma partition_exact:
  assumes safe: "safeCounter total_outbound_count rs"
  shows "allFinite (calculateGroupStats rs)
      \<and> exactTotal (calculateGroupStats rs) = exactSum total_outbound_count rs"
    and "allFinite (calculateProvinceStats rs None)
      \<and> exactTotal (calculateProvinceStats rs None) = exactSum total_outbound_count rs"
    and "allFinite (calculateAccountStats rs)
      \<and> exactTotal (calculateAccountStats rs) = exactSum total_outbound_count rs"
    and "allFinite (calculateAccountProvinceStats rs None)
      \<and> exactTotal (calculateAccountProvinceStats rs None) = exactSum total_outbound_count rs"
proof -
  show "allFinite (calculateGroupStats rs)
      \<and> exactTotal (calculateGroupStats rs) = exactSum total_outbound_count rs"
    by (rule keyed_totals_exact [OF safe group_totals])
  show "allFinite (calculateProvinceStats rs None)
      \<and> exactTotal (calculateProvinceStats rs None) = exactSum total_outbound_count rs"
    unfolding calculateProvinceStats_def exactTotal_sortBy allFinite_sortBy
    using keyed_totals_exact [OF safe province_totals_unsorted [of rs None, unfolded filterBy_None]] .
  show "allFinite (calculateAccountStats rs)
      \<and> exactTotal (calculateAccountStats rs) = exactSum total_outbound_count rs"
    unfolding calculateAccountStats_def exactTotal_sortBy allFinite_sortBy
    using keyed_totals_exact [OF safe account_totals_unsorted] .
  show "allFinite (calculateAccountProvinceStats rs None)
      \<and> exactTotal (calculateAccountProvinceStats rs None) = exactSum total_outbound_count rs"
    unfolding calculateAccountProvinceStats_def exactTotal_sortBy allFinite_sortBy
    using keyed_totals_exact [OF safe accountProvince_totals_unsorted [of rs None, unfolded filterBy_None]] .
qed

section \<open>Evaluation of the reductions on concrete inputs\<close>

lemmas eval_defs =
  calculateGroupStats_def calculateProvinceStats_def calculateAccountStats_def
  calculateAccountProvinceStats_def calculateOverallStats_def calculateOverallStatsExt_def
  groupStep_def provinceStep_def accountStep_def accountProvinceStep_def accountProvinceKey_def
  provinceMap_def accountMap_def accountProvinceMap_def filterByGroup_def filterByAccount_def
  truthy_def getOrEmpty_def addRecord_def emptySums_def overallStep_def overallStepExt_def
  groupRow_def provinceRow_def accountRow_def accountProvinceRow_def
  sortBy_def byTotalOutboundDesc_def jsSub_def rate_def orUnknown_def unknown_def mkRecord_def
  roundToDouble_def bitLength.simps Let_def

section \<open>The sums of the overall reduction\<close>

text \<open>
  C1, as amended. For every list of records, each summed counter returned by
  \<open>calculateOverallStats\<close> (in both versions of the file) is the sum of the corresponding
  counter over all records as double arithmetic computes it: from 0, in the order of the
  records, each addition rounded. It is the exact sum whenever the counter is an integer in
  every record and the absolute values add up to less than \<open>2^53\<close>.
\<close>

theorem C1_overall_sums:
  "totalOutbound (calculateOverallStats rs) = jsSum (map total_outbound_count rs)
   \<and> blackOutbound (calculateOverallStats rs) = jsSum (map black_outbound_count rs)
   \<and> totalPickup (calculateOverallStats rs) = jsSum (map total_pickup_count rs)
   \<and> blackPickup (calculateOverallStats rs) = jsSum (map black_pickup_count rs)
   \<and> totalPay (calculateOverallStats rs) = jsSum (map total_pay_count rs)
   \<and> blackPay (calculateOverallStats rs) = jsSum (map black_pay_count rs)
   \<and> totalOutbound (calculateOverallStatsExt rs) = jsSum (map total_outbound_count rs)
   \<and> blackOutbound (calculateOverallStatsExt rs) = jsSum (map black_outbound_count rs)
   \<and> totalPickup (calculateOverallStatsExt rs) = jsSum (map total_pickup_count rs)
   \<and> blackPickup (calculateOverallStatsExt rs) = jsSum (map black_pickup_count rs)
   \<and> totalPay (calculateOverallStatsExt rs) = jsSum (map total_pay_count rs)
   \<and> blackPay (calculateOverallStatsExt rs) = jsSum (map black_pay_count rs)
   \<and> totalComplain (calculateOverallStatsExt rs) = jsSum (map total_complain_count rs)
   \<and> blackComplain (calculateOverallStatsExt rs) = jsSum (map black_complain_count rs)
   \<and> (safeCounter total_outbound_count rs \<longrightarrow>
        totalOutbound (calculateOverallStats rs) = exactSum total_outbound_count rs
        \<and> totalOutbound (calculateOverallStatsExt rs) = exactSum total_outbound_count rs)
   \<and> (safeCounter black_outbound_count rs \<longrightarrow>
        blackOutbound (calculateOverallStats rs) = exactSum black_outbound_count rs
        \<and> blackOutbound (calculateOverallStatsExt rs) = exactSum black_outbound_count rs)
   \<and> (safeCounter total_pickup_count rs \<longrightarrow>
        totalPickup (calculateOverallStats rs) = exactSum total_pickup_count rs
        \<and> totalPickup (calculateOverallStatsExt rs) = exactSum total_pickup_count rs)
   \<and> (safeCounter black_pickup_count rs \<longrightarrow>
        blackPickup (calculateOverallStats rs) = exactSum black_pickup_count rs
        \<and> blackPickup (calculateOverallStatsExt rs) = exactSum black_pickup_count rs)
   \<and> (safeCounter total_pay_count rs \<longrightarrow>
        totalPay (calculateOverallStats rs) = exactSum total_pay_count rs
        \<and> totalPay (calculateOverallStatsExt rs) = exactSum total_pay_count rs)
   \<and> (safeCounter black_pay_count rs \<longrightarrow>
        blackPay (calculateOverallStats rs) = exactSum black_pay_count rs
        \<and> blackPay (calculateOverallStatsExt rs) = exactSum black_pay_count rs)
   \<and> (safeCounter total_complain_count rs \<longrightarrow>
        totalComplain (calculateOverallStatsExt rs) = exactSum total_complain_count rs)
   \<and> (safeCounter black_complain_count rs \<longrightarrow>
        blackComplain (calculateOverallStatsExt rs) = exactSum black_complain_count rs)"
  by (simp add: overall_sums overallExt_sums jsSum_safe)

text \<open>Witness for C1: the two records of the example scenario, 1000 and 2000 outbound calls.\<close>

theorem C1_overall_sums_witness:
  "safeCounter total_outbound_count
     [mkRecord ''a1'' ''P1'' ''31'' 1000 100 0 0 0 0, mkRecord ''a2'' ''P2'' '''' 2000 0 0 0 0 0]
   \<and> totalOutbound (calculateOverallStats
     [mkRecord ''a1'' ''P1'' ''31'' 1000 100 0 0 0 0, mkRecord ''a2'' ''P2'' '''' 2000 0 0 0 0 0])
     = Finite 3000
   \<and> exactSum total_outbound_count
     [mkRecord ''a1'' ''P1'' ''31'' 1000 100 0 0 0 0, mkRecord ''a2'' ''P2'' '''' 2000 0 0 0 0 0]
     = Finite 3000"
  using C1_overall_sums [of
     "[mkRecord ''a1'' ''P1'' ''31'' 1000 100 0 0 0 0, mkRecord ''a2'' ''P2'' '''' 2000 0 0 0 0 0]"]
  by (simp add: eval_defs safeCounter_def exactSum_def jsSum_def)

text \<open>
  Counterexample to C1 as stated: with the counters \<open>2^53\<close>, 1 and 1 (texts that \<open>parseInt\<close>
  reads exactly) the total is \<open>2^53\<close>, since \<open>2^53 + 1\<close> is not a double and rounds back to
  \<open>2^53\<close> twice; the sum of the counters is \<open>2^53 + 2\<close>.
\<close>

theorem C1_rounded_sum_counterexample:
  "totalOutbound (calculateOverallStats
     [mkRecord ''a1'' ''P1'' ''31'' 9007199254740992 0 0 0 0 0,
      mkRecord ''a1'' ''P1'' ''32'' 1 0 0 0 0 0, mkRecord ''a1'' ''P1'' ''32'' 1 0 0 0 0 0])
     = Finite 9007199254740992
   \<and> exactSum total_outbound_count
     [mkRecord ''a1'' ''P1'' ''31'' 9007199254740992 0 0 0 0 0,
      mkRecord ''a1'' ''P1'' ''32'' 1 0 0 0 0 0, mkRecord ''a1'' ''P1'' ''32'' 1 0 0 0 0 0]
     = Finite 9007199254740994"
  by (simp add: eval_defs exactSum_def)

section \<open>The partition of the records by the grouped reductions\<close>

text \<open>
  C2, as amended. For every list of records whose \<open>total_outbound_count\<close> are integers with
  absolute values adding up to less than \<open>2^53\<close>, and for every grouped reduction (by group,
  province, account, account and province) without a filter argument, the \<open>totalOutbound\<close> of
  the rows are finite and add up to the \<open>totalOutbound\<close> of \<open>calculateOverallStats\<close>: no record
  is dropped or counted twice. \<open>calculateGroupStats\<close> exists only beside the basic
  \<open>calculateOverallStats\<close>, and \<open>calculateAccountProvinceStats\<close> only beside the extended one.
\<close>

theorem C2_partition:
  assumes "safeCounter total_outbound_count rs"
  shows "allFinite (calculateGroupStats rs)
     \<and> exactTotal (calculateGroupStats rs) = totalOutbound (calculateOverallStats rs)
     \<and> allFinite (calculateProvinceStats rs None)
     \<and> exactTotal (calculateProvinceStats rs None) = totalOutbound (calculateOverallStats rs)
     \<and> exactTotal (calculateProvinceStats rs None) = totalOutbound (calculateOverallStatsExt rs)
     \<and> allFinite (calculateAccountStats rs)
     \<and> exactTotal (calculateAccountStats rs) = totalOutbound (calculateOverallStats rs)
     \<and> exactTotal (calculateAccountStats rs) = totalOutbound (calculateOverallStatsExt rs)
     \<and> allFinite (calculateAccountProvinceStats rs None)
     \<and> exactTotal (calculateAccountProvinceStats rs None) = totalOutbound (calculateOverallStatsExt rs)"
  using partition_exact [OF assms] jsSum_safe [OF assms]
  by (simp add: overall_sums overallExt_sums)

text \<open>Witness for C2: three records in two groups.\<close>

theorem C2_partition_witness:
  "safeCounter total_outbound_count
     [mkRecord ''a1'' ''P1'' ''31'' 1000 100 0 0 0 0, mkRecord ''a2'' ''P2'' '''' 2000 0 0 0 0 0,
      mkRecord ''a1'' ''P2'' ''31'' 5 1 0 0 0 0]
   \<and> map totalOutbound (calculateGroupStats
     [mkRecord ''a1'' ''P1'' ''31'' 1000 100 0 0 0 0, mkRecord ''a2'' ''P2'' '''' 2000 0 0 0 0 0,
      mkRecord ''a1'' ''P2'' ''31'' 5 1 0 0 0 0]) = [Finite 1005, Finite 2000]
   \<and> totalOutbound (calculateOverallStats
     [mkRecord ''a1'' ''P1'' ''31'' 1000 100 0 0 0 0, mkRecord ''a2'' ''P2'' '''' 2000 0 0 0 0 0,
      mkRecord ''a1'' ''P2'' ''31'' 5 1 0 0 0 0]) = Finite 3005"
proof -
  have h: "safeCounter total_outbound_count
     [mkRecord ''a1'' ''P1'' ''31'' 1000 100 0 0 0 0, mkRecord ''a2'' ''P2'' '''' 2000 0 0 0 0 0,
      mkRecord ''a1'' ''P2'' ''31'' 5 1 0 0 0 0]"
    by (simp add: safeCounter_def mkRecord_def)
  show ?thesis
    using h C2_partition [OF h]
    by (simp add: eval_defs)
qed

text \<open>
  Counterexample to C2 as stated: one record of \<open>2^53\<close> outbound calls in group 31 and two
  records of 1 call in group 32. The rows hold \<open>2^53\<close> and 2, which add up to \<open>2^53 + 2\<close>
  (exactly, and also when added as doubles); the overall total, summed in one chain of
  rounded additions, is \<open>2^53\<close>.
\<close>

theorem C2_rounded_partition_counterexample:
  "map totalOutbound (calculateGroupStats
     [mkRecord ''a1'' ''P1'' ''31'' 9007199254740992 0 0 0 0 0,
      mkRecord ''a1'' ''P1'' ''32'' 1 0 0 0 0 0, mkRecord ''a1'' ''P1'' ''32'' 1 0 0 0 0 0])
     = [Finite 9007199254740992, Finite 2]
   \<and> exactTotal (calculateGroupStats
     [mkRecord ''a1'' ''P1'' ''31'' 9007199254740992 0 0 0 0 0,
      mkRecord ''a1'' ''P1'' ''32'' 1 0 0 0 0 0, mkRecord ''a1'' ''P1'' ''32'' 1 0 0 0 0 0])
     = Finite 9007199254740994
   \<and> jsSum (map totalOutbound (calculateGroupStats
     [mkRecord ''a1'' ''P1'' ''31'' 9007199254740992 0 0 0 0 0,
      mkRecord ''a1'' ''P1'' ''32'' 1 0 0 0 0 0, mkRecord ''a1'' ''P1'' ''32'' 1 0 0 0 0 0]))
     = Finite 9007199254740994
   \<and> totalOutbound (calculateOverallStats
     [mkRecord ''a1'' ''P1'' ''31'' 9007199254740992 0 0 0 0 0,
      mkRecord ''a1'' ''P1'' ''32'' 1 0 0 0 0 0, mkRecord ''a1'' ''P1'' ''32'' 1 0 0 0 0 0])
     = Finite 9007199254740992"
  by (simp add: eval_defs exactTotal_def jsSum_def)

section \<open>Order of the rows\<close>

lemma province_p_row: "province_p (provinceRow (k, s)) = k"
  and totalOutbound_row_p: "totalOutbound (provinceRow (k, s)) = totalOutbound s"
  by (simp_all add: provinceRow_def)

lemma account_a_row: "account_a (accountRow (k, s)) = k"
  and totalOutbound_row_a: "totalOutbound (accountRow (k, s)) = totalOutbound s"
  by (simp_all add: accountRow_def)

lemma province_stable:
  "map province_p (filter (\<lambda>row. totalOutbound row = t) (calculateProvinceStats rs g)) =
     filter (\<lambda>k. jsSum (map total_outbound_count
                (filter (\<lambda>r. orUnknown (province r) = k) (filterByGroup rs g))) = t)
       (firstSeen (map (\<lambda>r. orUnknown (province r)) (filterByGroup rs g)))"
  by (simp add: calculateProvinceStats_def sortBy_stable provinceMap_entries filter_map comp_def
      province_p_row totalOutbound_row_p totalOutbound_sumsOf)

lemma account_stable:
  "map account_a (filter (\<lambda>row. totalOutbound row = t) (calculateAccountStats rs)) =
     filter (\<lambda>k. jsSum (map total_outbound_count
                (filter (\<lambda>r. orUnknown (account r) = k) rs)) = t)
       (firstSeen (map (\<lambda>r. orUnknown (account r)) rs))"
  by (simp add: calculateAccountStats_def sortBy_stable accountMap_entries filter_map comp_def
      account_a_row totalOutbound_row_a totalOutbound_sumsOf)

lemma accountProvince_stable:
  "filter (\<lambda>row. totalOutbound row = t) (calculateAccountProvinceStats rs a) =
     filter (\<lambda>row. totalOutbound row = t)
       (map accountProvinceRow (map snd (accountProvinceMap rs a)))"
  by (simp only: calculateAccountProvinceStats_def sortBy_stable)

lemma results_permuted:
  "set (calculateProvinceStats rs g) = set (map provinceRow (provinceMap rs g))"
  "set (calculateAccountStats rs) = set (map accountRow (accountMap rs))"
  "set (calculateAccountProvinceStats rs a) =
     set (map accountProvinceRow (map snd (accountProvinceMap rs a)))"
  by (simp_all only: calculateProvinceStats_def calculateAccountStats_def
      calculateAccountProvinceStats_def set_sortBy)

lemma results_sorted:
  "noNaNTotals (calculateProvinceStats rs g) \<Longrightarrow>
     sorted_wrt (\<lambda>a b. jsLe (totalOutbound b) (totalOutbound a)) (calculateProvinceStats rs g)"
  "noNaNTotals (calculateAccountStats rs) \<Longrightarrow>
     sorted_wrt (\<lambda>a b. jsLe (totalOutbound b) (totalOutbound a)) (calculateAccountStats rs)"
  "noNaNTotals (calculateAccountProvinceStats rs a) \<Longrightarrow>
     sorted_wrt (\<lambda>a b. jsLe (totalOutbound b) (totalOutbound a))
       (calculateAccountProvinceStats rs a)"
  unfolding noNaNTotals_def list_all_iff results_permuted
  unfolding calculateProvinceStats_def calculateAccountStats_def calculateAccountProvinceStats_def
  by (rule sortBy_sorted, assumption)+

text \<open>
  C4, as amended. For every list of records and any filter argument, whenever no row returned
  by the province, account or account+province reduction has \<open>NaN\<close> as its \<open>totalOutbound\<close>,
  the rows are sorted descending by \<open>totalOutbound\<close> (every row is at least every later row,
  so every adjacent pair is in order), and rows with equal \<open>totalOutbound\<close> keep the order in
  which their keys were first seen: for every value \<open>t\<close>, the rows with \<open>totalOutbound = t\<close>
  are, in the result's order, those of the keys with that total in first-seen order. For the
  account+province reduction the key is not part of the row, so the statement is that the
  \<open>Map\<close> holds the keys in first-seen order and that the rows with total \<open>t\<close> are in the order
  of the \<open>Map\<close>. With a \<open>NaN\<close> among the totals the comparator is not consistent, and the
  language leaves the order of the result to the implementation.
\<close>

theorem C4_sorted_stable:
  "(noNaNTotals (calculateProvinceStats rs g) \<longrightarrow>
      sorted_wrt (\<lambda>a b. jsLe (totalOutbound b) (totalOutbound a)) (calculateProvinceStats rs g)
      \<and> map province_p (filter (\<lambda>row. totalOutbound row = t) (calculateProvinceStats rs g)) =
          filter (\<lambda>k. jsSum (map total_outbound_count
                     (filter (\<lambda>r. orUnknown (province r) = k) (filterByGroup rs g))) = t)
            (firstSeen (map (\<lambda>r. orUnknown (province r)) (filterByGroup rs g))))
   \<and> (noNaNTotals (calculateAccountStats rs) \<longrightarrow>
      sorted_wrt (\<lambda>a b. jsLe (totalOutbound b) (totalOutbound a)) (calculateAccountStats rs)
      \<and> map account_a (filter (\<lambda>row. totalOutbound row = t) (calculateAccountStats rs)) =
          filter (\<lambda>k. jsSum (map total_outbound_count
                     (filter (\<lambda>r. orUnknown (account r) = k) rs)) = t)
            (firstSeen (map (\<lambda>r. orUnknown (account r)) rs)))
   \<and> map fst (accountProvinceMap rs a) = firstSeen (map accountProvinceKey (filterByAccount rs a))
   \<and> (noNaNTotals (calculateAccountProvinceStats rs a) \<longrightarrow>
      sorted_wrt (\<lambda>a b. jsLe (totalOutbound b) (totalOutbound a))
        (calculateAccountProvinceStats rs a)
      \<and> filter (\<lambda>row. totalOutbound row = t) (calculateAccountProvinceStats rs a) =
          filter (\<lambda>row. totalOutbound row = t)
            (map accountProvinceRow (map snd (accountProvinceMap rs a))))"
  by (intro conjI impI province_stable account_stable accountProvinceMap_keys
      results_sorted accountProvince_stable)

text \<open>
  Witness for C4: province \<open>P1\<close> totals 9, and \<open>P2\<close> and the blank province total 7 each,
  \<open>P2\<close> seen first.
\<close>

theorem C4_sorted_stable_witness:
  "noNaNTotals (calculateProvinceStats
     [mkRecord ''a1'' ''P1'' ''31'' 5 0 0 0 0 0, mkRecord ''a2'' ''P2'' ''31'' 7 0 0 0 0 0,
      mkRecord ''a3'' '''' ''32'' 7 0 0 0 0 0, mkRecord ''a1'' ''P1'' ''32'' 4 0 0 0 0 0] None)
   \<and> map province_p (calculateProvinceStats
     [mkRecord ''a1'' ''P1'' ''31'' 5 0 0 0 0 0, mkRecord ''a2'' ''P2'' ''31'' 7 0 0 0 0 0,
      mkRecord ''a3'' '''' ''32'' 7 0 0 0 0 0, mkRecord ''a1'' ''P1'' ''32'' 4 0 0 0 0 0] None)
     = [''P1'', ''P2'', unknown]
   \<and> map totalOutbound (calculateProvinceStats
     [mkRecord ''a1'' ''P1'' ''31'' 5 0 0 0 0 0, mkRecord ''a2'' ''P2'' ''31'' 7 0 0 0 0 0,
      mkRecord ''a3'' '''' ''32'' 7 0 0 0 0 0, mkRecord ''a1'' ''P1'' ''32'' 4 0 0 0 0 0] None)
     = [Finite 9, Finite 7, Finite 7]"
  using C4_sorted_stable [of
     "[mkRecord ''a1'' ''P1'' ''31'' 5 0 0 0 0 0, mkRecord ''a2'' ''P2'' ''31'' 7 0 0 0 0 0,
       mkRecord ''a3'' '''' ''32'' 7 0 0 0 0 0, mkRecord ''a1'' ''P1'' ''32'' 4 0 0 0 0 0]"
     None "Finite 7" None]
  by (simp add: eval_defs noNaNTotals_def)

text \<open>
  Counterexample to C4 as stated: province \<open>P1\<close> has one record whose counter is \<open>Infinity\<close>
  and one whose counter is \<open>-Infinity\<close> (what \<open>parseInt\<close> makes of digit strings beyond the
  range of the doubles), so its total is \<open>NaN\<close>; province \<open>P2\<close> totals 5. The comparator
  yields \<open>NaN\<close>, which counts as 0, the rows stay in first-seen order, and \<open>NaN >= 5\<close> is
  false (as is \<open>5 >= NaN\<close>, so no order of the two rows would satisfy the claim).
\<close>

theorem C4_NaN_total_counterexample:
  "map province_p (calculateProvinceStats
     [mkOutbound ''a1'' ''P1'' ''31'' PosInfinity (Finite 0),
      mkOutbound ''a2'' ''P1'' ''31'' NegInfinity (Finite 0),
      mkOutbound ''a3'' ''P2'' ''31'' (Finite 5) (Finite 0)] None) = [''P1'', ''P2'']
   \<and> map totalOutbound (calculateProvinceStats
     [mkOutbound ''a1'' ''P1'' ''31'' PosInfinity (Finite 0),
      mkOutbound ''a2'' ''P1'' ''31'' NegInfinity (Finite 0),
      mkOutbound ''a3'' ''P2'' ''31'' (Finite 5) (Finite 0)] None) = [NaN, Finite 5]
   \<and> \<not> jsLe (Finite 5) NaN"
  by (simp add: eval_defs mkOutbound_def)

section \<open>Rates and zero denominators\<close>

lemma rates_groupRow:
  "blackOutboundRate (groupRow e) = rate (blackOutbound (groupRow e)) (totalOutbound (groupRow e))"
  "blackPickupRate (groupRow e) = rate (blackPickup (groupRow e)) (totalPickup (groupRow e))"
  by (cases e; simp add: groupRow_def)+

lemma rates_provinceRow:
  "blackOutboundRate (provinceRow e) = rate (blackOutbound (provinceRow e)) (totalOutbound (provinceRow e))"
  "blackPickupRate (provinceRow e) = rate (blackPickup (provinceRow e)) (totalPickup (provinceRow e))"
  by (cases e; simp add: provinceRow_def)+

lemma rates_accountRow:
  "blackOutboundRate (accountRow e) = rate (blackOutbound (accountRow e)) (totalOutbound (accountRow e))"
  "blackPickupRate (accountRow e) = rate (blackPickup (accountRow e)) (totalPickup (accountRow e))"
  by (cases e; simp add: accountRow_def)+

lemma rates_accountProvinceRow:
  "blackOutboundRate (accountProvinceRow b) =
     rate (blackOutbound (accountProvinceRow b)) (totalOutbound (accountProvinceRow b))"
  "blackPickupRate (accountProvinceRow b) =
     rate (blackPickup (accountProvinceRow b)) (totalPickup (accountProvinceRow b))"
  by (simp_all add: accountProvinceRow_def)

lemma rows_rates:
  "row \<in> set (calculateGroupStats rs) \<Longrightarrow>
     blackOutboundRate row = rate (blackOutbound row) (totalOutbound row)
     \<and> blackPickupRate row = rate (blackPickup row) (totalPickup row)"
  "prow \<in> set (calculateProvinceStats rs g) \<Longrightarrow>
     blackOutboundRate prow = rate (blackOutbound prow) (totalOutbound prow)
     \<and> blackPickupRate prow = rate (blackPickup prow) (totalPickup prow)"
  "arow \<in> set (calculateAccountStats rs) \<Longrightarrow>
     blackOutboundRate arow = rate (blackOutbound arow) (totalOutbound arow)
     \<and> blackPickupRate arow = rate (blackPickup arow) (totalPickup arow)"
  "aprow \<in> set (calculateAccountProvinceStats rs a) \<Longrightarrow>
     blackOutboundRate aprow = rate (blackOutbound aprow) (totalOutbound aprow)
     \<and> blackPickupRate aprow = rate (blackPickup aprow) (totalPickup aprow)"
  by (auto simp: calculateGroupStats_def calculateProvinceStats_def calculateAccountStats_def
      calculateAccountProvinceStats_def set_sortBy rates_groupRow rates_provinceRow
      rates_accountRow rates_accountProvinceRow)

lemma overall_rates:
  "blackOutboundRate (calculateOverallStats rs) =
     rate (blackOutbound (calculateOverallStats rs)) (totalOutbound (calculateOverallStats rs))"
  "blackPickupRate (calculateOverallStats rs) =
     rate (blackPickup (calculateOverallStats rs)) (totalPickup (calculateOverallStats rs))"
  "blackPayRate (calculateOverallStats rs) =
     rate (blackPay (calculateOverallStats rs)) (totalPay (calculateOverallStats rs))"
  by (simp_all add: calculateOverallStats_def Let_def)

lemma overallExt_rates:
  "blackOutboundRate (calculateOverallStatsExt rs) =
     rate (blackOutbound (calculateOverallStatsExt rs)) (totalOutbound (calculateOverallStatsExt rs))"
  "blackPickupRate (calculateOverallStatsExt rs) =
     rate (blackPickup (calculateOverallStatsExt rs)) (totalPickup (calculateOverallStatsExt rs))"
  "blackPayRate (calculateOverallStatsExt rs) =
     rate (blackPay (calculateOverallStatsExt rs)) (totalPay (calculateOverallStatsExt rs))"
  "blackComplainRate (calculateOverallStatsExt rs) =
     rate (blackComplain (calculateOverallStatsExt rs)) (totalComplain (calculateOverallStatsExt rs))"
  by (simp_all add: calculateOverallStatsExt_def split: prod.split)




lemma group_rows:
  "calculateGroupStats rs =
     map (\<lambda>k. groupRow (k, sumsOf (filter (\<lambda>r. group_r r = k) rs))) (firstSeen (map group_r rs))"
  by (simp add: calculateGroupStats_def groupMap_entries comp_def)

lemma province_rows_set:
  "set (calculateProvinceStats rs g) =
     (\<lambda>k. provinceRow (k, sumsOf (filter (\<lambda>r. orUnknown (province r) = k) (filterByGroup rs g))))
       ` set (map (\<lambda>r. orUnknown (province r)) (filterByGroup rs g))"
  by (simp add: calculateProvinceStats_def set_sortBy provinceMap_entries set_firstSeen image_image)

lemma account_rows_set:
  "set (calculateAccountStats rs) =
     (\<lambda>k. accountRow (k, sumsOf (filter (\<lambda>r. orUnknown (account r) = k) rs)))
       ` set (map (\<lambda>r. orUnknown (account r)) rs)"
  by (simp add: calculateAccountStats_def set_sortBy accountMap_entries set_firstSeen image_image)

lemma group_rows_set:
  "set (calculateGroupStats rs) =
     (\<lambda>k. groupRow (k, sumsOf (filter (\<lambda>r. group_r r = k) rs))) ` set (map group_r rs)"
  by (simp add: group_rows set_firstSeen image_image)







section \<open>The key of the account and province reduction\<close>

text \<open>
  C6. The claim is that \<open>calculateAccountProvinceStats\<close> groups by the pair of the defaulted
  account and the defaulted province. The code defaults the province inside the key, and the
  account only in the fields of the bucket, not inside the key: two records with the same
  province whose accounts are the empty string and the sentinel give two rows, both labelled
  with the sentinel, where \<open>calculateAccountStats\<close> on the same records gives one.
\<close>

theorem C6_account_not_defaulted_in_key:
  "map account_ap (calculateAccountProvinceStats
      [mkRecord '''' ''P'' ''31'' 1 0 0 0 0 0, mkRecord unknown ''P'' ''31'' 2 0 0 0 0 0] None)
     = [unknown, unknown]
   \<and> map province_ap (calculateAccountProvinceStats
      [mkRecord '''' ''P'' ''31'' 1 0 0 0 0 0, mkRecord unknown ''P'' ''31'' 2 0 0 0 0 0] None)
     = [''P'', ''P'']
   \<and> map totalOutbound (calculateAccountProvinceStats
      [mkRecord '''' ''P'' ''31'' 1 0 0 0 0 0, mkRecord unknown ''P'' ''31'' 2 0 0 0 0 0] None)
     = [Finite 2, Finite 1]
   \<and> map account_a (calculateAccountStats
      [mkRecord '''' ''P'' ''31'' 1 0 0 0 0 0, mkRecord unknown ''P'' ''31'' 2 0 0 0 0 0])
     = [unknown]
   \<and> map totalOutbound (calculateAccountStats
      [mkRecord '''' ''P'' ''31'' 1 0 0 0 0 0, mkRecord unknown ''P'' ''31'' 2 0 0 0 0 0])
     = [Finite 3]"
  by (simp add: eval_defs)

section \<open>The rates that each reduction computes\<close>

lemma entries_names:
  "map fst (groupStatsEntries r1) =
     [''group'', ''totalOutbound'', ''blackOutbound'', ''totalPickup'', ''blackPickup'',
      ''totalPay'', ''blackPay'', ''blackOutboundRate'', ''blackPickupRate'']"
  "map fst (provinceStatsEntries r2) =
     [''province'', ''totalOutbound'', ''blackOutbound'', ''totalPickup'', ''blackPickup'',
      ''totalPay'', ''blackPay'', ''blackOutboundRate'', ''blackPickupRate'']"
  "map fst (accountStatsEntries r3) =
     [''account'', ''totalOutbound'', ''blackOutbound'', ''totalPickup'', ''blackPickup'',
      ''totalPay'', ''blackPay'', ''blackOutboundRate'', ''blackPickupRate'']"
  "map fst (accountProvinceStatsEntries r4) =
     [''account'', ''province'', ''totalOutbound'', ''blackOutbound'', ''totalPickup'',
      ''blackPickup'', ''totalPay'', ''blackPay'', ''blackOutboundRate'', ''blackPickupRate'']"
  by (simp_all add: groupStatsEntries_def provinceStatsEntries_def accountStatsEntries_def
      accountProvinceStatsEntries_def sumsEntries_def ratesEntries_def)

text \<open>
  C3, as amended. The overall reduction computes a rate for every counter pair it sums
  (outbound, pickup, pay, and complaint in the extended schema), each by the formula
  \<open>total > 0 ? (black / total) * 100 : 0\<close>. The group, province, account and account+province
  reductions sum the pay counters too, but compute only the outbound and pickup rates: their
  rows have no \<open>blackPayRate\<close> property.
\<close>

theorem C3_rates:
  "blackOutboundRate (calculateOverallStats rs) =
       rate (jsSum (map black_outbound_count rs)) (jsSum (map total_outbound_count rs))
   \<and> blackPickupRate (calculateOverallStats rs) =
       rate (jsSum (map black_pickup_count rs)) (jsSum (map total_pickup_count rs))
   \<and> blackPayRate (calculateOverallStats rs) =
       rate (jsSum (map black_pay_count rs)) (jsSum (map total_pay_count rs))
   \<and> blackOutboundRate (calculateOverallStatsExt rs) =
       rate (jsSum (map black_outbound_count rs)) (jsSum (map total_outbound_count rs))
   \<and> blackPickupRate (calculateOverallStatsExt rs) =
       rate (jsSum (map black_pickup_count rs)) (jsSum (map total_pickup_count rs))
   \<and> blackPayRate (calculateOverallStatsExt rs) =
       rate (jsSum (map black_pay_count rs)) (jsSum (map total_pay_count rs))
   \<and> blackComplainRate (calculateOverallStatsExt rs) =
       rate (jsSum (map black_complain_count rs)) (jsSum (map total_complain_count rs))
   \<and> (\<forall>row\<in>set (calculateGroupStats rs).
         blackOutboundRate row = rate (blackOutbound row) (totalOutbound row)
         \<and> blackPickupRate row = rate (blackPickup row) (totalPickup row)
         \<and> ''blackPayRate'' \<notin> set (map fst (groupStatsEntries row)))
   \<and> (\<forall>row\<in>set (calculateProvinceStats rs g).
         blackOutboundRate row = rate (blackOutbound row) (totalOutbound row)
         \<and> blackPickupRate row = rate (blackPickup row) (totalPickup row)
         \<and> ''blackPayRate'' \<notin> set (map fst (provinceStatsEntries row)))
   \<and> (\<forall>row\<in>set (calculateAccountStats rs).
         blackOutboundRate row = rate (blackOutbound row) (totalOutbound row)
         \<and> blackPickupRate row = rate (blackPickup row) (totalPickup row)
         \<and> ''blackPayRate'' \<notin> set (map fst (accountStatsEntries row)))
   \<and> (\<forall>row\<in>set (calculateAccountProvinceStats rs a).
         blackOutboundRate row = rate (blackOutbound row) (totalOutbound row)
         \<and> blackPickupRate row = rate (blackPickup row) (totalPickup row)
         \<and> ''blackPayRate'' \<notin> set (map fst (accountProvinceStatsEntries row)))"
proof -
  have o: "blackOutboundRate (calculateOverallStats rs) =
       rate (jsSum (map black_outbound_count rs)) (jsSum (map total_outbound_count rs))"
    "blackPickupRate (calculateOverallStats rs) =
       rate (jsSum (map black_pickup_count rs)) (jsSum (map total_pickup_count rs))"
    "blackPayRate (calculateOverallStats rs) =
       rate (jsSum (map black_pay_count rs)) (jsSum (map total_pay_count rs))"
    by (simp_all only: overall_rates overall_sums)
  have e: "blackOutboundRate (calculateOverallStatsExt rs) =
       rate (jsSum (map black_outbound_count rs)) (jsSum (map total_outbound_count rs))"
    "blackPickupRate (calculateOverallStatsExt rs) =
       rate (jsSum (map black_pickup_count rs)) (jsSum (map total_pickup_count rs))"
    "blackPayRate (calculateOverallStatsExt rs) =
       rate (jsSum (map black_pay_count rs)) (jsSum (map total_pay_count rs))"
    "blackComplainRate (calculateOverallStatsExt rs) =
       rate (jsSum (map black_complain_count rs)) (jsSum (map total_complain_count rs))"
    by (simp_all only: overallExt_rates overallExt_sums)
  have r1: "\<forall>row\<in>set (calculateGroupStats rs).
         blackOutboundRate row = rate (blackOutbound row) (totalOutbound row)
         \<and> blackPickupRate row = rate (blackPickup row) (totalPickup row)
         \<and> ''blackPayRate'' \<notin> set (map fst (groupStatsEntries row))"
    by (simp add: rows_rates entries_names)
  have r2: "\<forall>row\<in>set (calculateProvinceStats rs g).
         blackOutboundRate row = rate (blackOutbound row) (totalOutbound row)
         \<and> blackPickupRate row = rate (blackPickup row) (totalPickup row)
         \<and> ''blackPayRate'' \<notin> set (map fst (provinceStatsEntries row))"
    by (simp add: rows_rates entries_names)
  have r3: "\<forall>row\<in>set (calculateAccountStats rs).
         blackOutboundRate row = rate (blackOutbound row) (totalOutbound row)
         \<and> blackPickupRate row = rate (blackPickup row) (totalPickup row)
         \<and> ''blackPayRate'' \<notin> set (map fst (accountStatsEntries row))"
    by (simp add: rows_rates entries_names)
  have r4: "\<forall>row\<in>set (calculateAccountProvinceStats rs a).
         blackOutboundRate row = rate (blackOutbound row) (totalOutbound row)
         \<and> blackPickupRate row = rate (blackPickup row) (totalPickup row)
         \<and> ''blackPayRate'' \<notin> set (map fst (accountProvinceStatsEntries row))"
    by (simp add: rows_rates entries_names)
  from o e r1 r2 r3 r4 show ?thesis
    by (intro conjI)
qed

lemmas entries_defs =
  groupStatsEntries_def provinceStatsEntries_def accountStatsEntries_def
  accountProvinceStatsEntries_def sumsEntries_def ratesEntries_def

text \<open>Witness for C3: two groups, the second without any call.\<close>

theorem C3_rates_witness:
  "map blackOutboundRate (calculateGroupStats
      [mkRecord ''a1'' ''P1'' ''31'' 10 1 4 1 2 1, mkRecord ''a2'' ''P2'' ''32'' 0 0 0 0 0 0]) = [Ratio 10, Ratio 0]
   \<and> map blackPickupRate (calculateGroupStats
      [mkRecord ''a1'' ''P1'' ''31'' 10 1 4 1 2 1, mkRecord ''a2'' ''P2'' ''32'' 0 0 0 0 0 0]) = [Ratio 25, Ratio 0]
   \<and> blackPayRate (calculateOverallStats
      [mkRecord ''a1'' ''P1'' ''31'' 10 1 4 1 2 1, mkRecord ''a2'' ''P2'' ''32'' 0 0 0 0 0 0]) = Ratio 50"
  using C3_rates [of "[mkRecord ''a1'' ''P1'' ''31'' 10 1 4 1 2 1, mkRecord ''a2'' ''P2'' ''32'' 0 0 0 0 0 0]" None None]
  by (simp add: eval_defs)

text \<open>
  Counterexample to C3 as stated: one record with 2 payments, 1 of them blacklisted. The pay
  rate would be 50; the row of the group reduction holds the nine properties shown, none of
  them the pay rate, and the rows of the other grouped reductions have no \<open>blackPayRate\<close>
  either.
\<close>

theorem C3_no_pay_rate_counterexample:
  "map groupStatsEntries (calculateGroupStats [mkRecord ''a1'' ''P1'' ''31'' 10 1 4 1 2 1]) =
     [[(''group'', JSString ''31''), (''totalOutbound'', JSNumber (Finite 10)),
       (''blackOutbound'', JSNumber (Finite 1)), (''totalPickup'', JSNumber (Finite 4)),
       (''blackPickup'', JSNumber (Finite 1)), (''totalPay'', JSNumber (Finite 2)),
       (''blackPay'', JSNumber (Finite 1)), (''blackOutboundRate'', JSRatio (Ratio 10)),
       (''blackPickupRate'', JSRatio (Ratio 25))]]
   \<and> rate (Finite 1) (Finite 2) = Ratio 50
   \<and> (''blackPayRate'', JSRatio (Ratio 50)) \<notin> set (concat (map groupStatsEntries
         (calculateGroupStats [mkRecord ''a1'' ''P1'' ''31'' 10 1 4 1 2 1])))
   \<and> ''blackPayRate'' \<notin> set (map fst (concat (map provinceStatsEntries
         (calculateProvinceStats [mkRecord ''a1'' ''P1'' ''31'' 10 1 4 1 2 1] None))))
   \<and> ''blackPayRate'' \<notin> set (map fst (concat (map accountStatsEntries
         (calculateAccountStats [mkRecord ''a1'' ''P1'' ''31'' 10 1 4 1 2 1]))))
   \<and> ''blackPayRate'' \<notin> set (map fst (concat (map accountProvinceStatsEntries
         (calculateAccountProvinceStats [mkRecord ''a1'' ''P1'' ''31'' 10 1 4 1 2 1] None))))"
  by (simp add: eval_defs entries_defs)


section \<open>The group filter of the province reduction\<close>

lemma province_reduction:
  "calculateProvinceStats rs g = provinceReductionOf (filterByGroup rs g)"
  by (simp add: calculateProvinceStats_def provinceReductionOf_def provinceMap_entries comp_def)

text \<open>
  C5, as amended. For every non-empty group value \<open>g\<close>, \<open>calculateProvinceStats(records, g)\<close>
  is the province reduction of exactly the records whose group is \<open>g\<close>. The empty string is
  falsy, as the absent argument is: with it no filter is applied and all records participate.
\<close>

theorem C5_group_filter:
  "(g \<noteq> [] \<longrightarrow>
      calculateProvinceStats rs (Some g) = provinceReductionOf (filter (\<lambda>r. group_r r = g) rs))
   \<and> calculateProvinceStats rs (Some []) = provinceReductionOf rs
   \<and> calculateProvinceStats rs None = provinceReductionOf rs"
  by (simp add: province_reduction filterByGroup_def truthy_def)

text \<open>Witness for C5: group \<open>31\<close> among three records, one of them of the empty group.\<close>

theorem C5_group_filter_witness:
  "''31'' \<noteq> []
   \<and> map province_p (calculateProvinceStats
        [mkRecord ''a1'' ''P1'' '''' 1 0 0 0 0 0, mkRecord ''a2'' ''P1'' ''31'' 2 1 0 0 0 0,
         mkRecord ''a3'' ''P2'' ''31'' 5 1 0 0 0 0] (Some ''31'')) = [''P2'', ''P1'']
   \<and> map totalOutbound (calculateProvinceStats
        [mkRecord ''a1'' ''P1'' '''' 1 0 0 0 0 0, mkRecord ''a2'' ''P1'' ''31'' 2 1 0 0 0 0,
         mkRecord ''a3'' ''P2'' ''31'' 5 1 0 0 0 0] (Some ''31'')) = [Finite 5, Finite 2]"
  using C5_group_filter [of "''31''"
      "[mkRecord ''a1'' ''P1'' '''' 1 0 0 0 0 0, mkRecord ''a2'' ''P1'' ''31'' 2 1 0 0 0 0,
        mkRecord ''a3'' ''P2'' ''31'' 5 1 0 0 0 0]"]
  by (simp add: eval_defs provinceReductionOf_def firstSeen_def sumsOf_def jsSum_def)

text \<open>
  Counterexample to C5 as stated: of two records of province \<open>P1\<close>, one has the empty group
  (1 outbound call) and one has group \<open>31\<close> (2 outbound calls, 1 blacklisted). With the
  empty string as the filter, the row of \<open>P1\<close> counts both records.
\<close>

theorem C5_empty_group_counterexample:
  "map total_outbound_count (filter (inGroup '''')
      [mkRecord ''a1'' ''P1'' '''' 1 0 0 0 0 0, mkRecord ''a2'' ''P1'' ''31'' 2 1 0 0 0 0]) = [Finite 1]
   \<and> map province_p (calculateProvinceStats
      [mkRecord ''a1'' ''P1'' '''' 1 0 0 0 0 0, mkRecord ''a2'' ''P1'' ''31'' 2 1 0 0 0 0]
      (Some '''')) = [''P1'']
   \<and> map totalOutbound (calculateProvinceStats
      [mkRecord ''a1'' ''P1'' '''' 1 0 0 0 0 0, mkRecord ''a2'' ''P1'' ''31'' 2 1 0 0 0 0]
      (Some '''')) = [Finite 3]
   \<and> map blackOutbound (calculateProvinceStats
      [mkRecord ''a1'' ''P1'' '''' 1 0 0 0 0 0, mkRecord ''a2'' ''P1'' ''31'' 2 1 0 0 0 0]
      (Some '''')) = [Finite 1]"
  by (simp add: eval_defs inGroup_def)

section \<open>Zero denominators\<close>



section \<open>Bounds of the rates\<close>

lemma times100_unit:
  assumes "0 \<le> x" and "x \<le> 1"
  shows "inPercentRange (times100 (Ratio x))"
proof -
  have big: "(100::real) < 2 ^ 1024 - 2 ^ 970"
    by simp
  have h: "0 \<le> x * 100" "x * 100 \<le> 100"
    using assms by simp_all
  with big have "\<not> 2 ^ 1024 - 2 ^ 970 \<le> x * 100" "\<not> x * 100 \<le> - (2 ^ 1024 - 2 ^ 970)"
    by linarith+
  then have "times100 (Ratio x) = Ratio (x * 100)"
    by (simp only: times100.simps if_False)
  with h show ?thesis
    by (simp only: inPercentRange.simps simp_thms)
qed

lemma rate_bounds: "validPair b t \<Longrightarrow> inPercentRange (rate b t)"
proof -
  assume v: "validPair b t"
  then obtain B T where bt: "b = Finite B" "t = Finite T" and le: "0 \<le> B" "B \<le> T"
    by (cases b; cases t) (simp_all add: validPair_def)
  show ?thesis
  proof (cases "0 < T")
    case False
    then show ?thesis by (simp add: rate_def bt)
  next
    case True
    have q: "0 \<le> real_of_int B / real_of_int T" "real_of_int B / real_of_int T \<le> 1"
      using True le by (simp_all add: divide_le_eq)
    have "rate b t = times100 (Ratio (real_of_int B / real_of_int T))"
      using True by (simp add: rate_def bt)
    then show ?thesis
      using times100_unit [OF q] by (simp only:)
  qed
qed

text \<open>Sums of valid counter pairs, and the sum over some of the records.\<close>

lemma jsSum_snoc: "jsSum (xs @ [x]) = jsAdd (jsSum xs) x"
  by (simp add: jsSum_def)

lemma sums_of_pairs:
  assumes "\<forall>r\<in>set rs. validPair (fb r) (ft r)"
  shows "nonNegative (jsSum (map fb rs)) \<and> jsLe (jsSum (map fb rs)) (jsSum (map ft rs))"
  using assms
proof (induction rs rule: rev_induct)
  case Nil
  show ?case by (simp add: jsSum_def)
next
  case (snoc r rs)
  then have ih: "nonNegative (jsSum (map fb rs))" "jsLe (jsSum (map fb rs)) (jsSum (map ft rs))"
    by simp_all
  from snoc.prems obtain b t where bt: "fb r = Finite b" "ft r = Finite t" "0 \<le> b" "b \<le> t"
    by (cases "fb r"; cases "ft r") (simp_all add: validPair_def)
  show ?case
    unfolding map_append list.map jsSum_snoc bt
    using jsAdd_nonNegative [OF ih(1) bt(3)] jsAdd_mono [OF ih bt(3,4)] by simp
qed

lemma validPair_sums:
  assumes v: "\<forall>r\<in>set rs. validPair (fb r) (ft r)" and fin: "isFinite (jsSum (map ft rs))"
  shows "validPair (jsSum (map fb rs)) (jsSum (map ft rs))"
  using sums_of_pairs [OF v] fin
  by (cases "jsSum (map fb rs)"; cases "jsSum (map ft rs)") (simp_all add: validPair_def)

lemma sums_of_filter:
  assumes "\<forall>r\<in>set rs. isFinite (f r) \<and> 0 \<le> finiteValue (f r)"
  shows "nonNegative (jsSum (map f (filter P rs))) \<and> nonNegative (jsSum (map f rs))
     \<and> representable (jsSum (map f rs))
     \<and> jsLe (jsSum (map f (filter P rs))) (jsSum (map f rs))"
  using assms
proof (induction rs rule: rev_induct)
  case Nil
  show ?case by (simp add: jsSum_def roundToDouble_exact)
next
  case (snoc r rs)
  then have ih: "nonNegative (jsSum (map f (filter P rs)))" "nonNegative (jsSum (map f rs))"
      "representable (jsSum (map f rs))"
      "jsLe (jsSum (map f (filter P rs))) (jsSum (map f rs))"
    by simp_all
  from snoc.prems obtain c where c: "f r = Finite c" "0 \<le> c"
    by (cases "f r") simp_all
  have full: "nonNegative (jsSum (map f (rs @ [r])))" "representable (jsSum (map f (rs @ [r])))"
    unfolding map_append list.map jsSum_snoc c
    using ih(2) c(2) by (simp_all add: jsAdd_nonNegative jsAdd_representable)
  show ?case
  proof (cases "P r")
    case True
    have "jsLe (jsAdd (jsSum (map f (filter P rs))) (Finite c)) (jsAdd (jsSum (map f rs)) (Finite c))"
      using ih(1,4) c(2) by (intro jsAdd_mono) simp_all
    moreover have "nonNegative (jsAdd (jsSum (map f (filter P rs))) (Finite c))"
      using ih(1) c(2) by (rule jsAdd_nonNegative)
    ultimately show ?thesis
      using full True by (simp add: jsSum_snoc c)
  next
    case False
    have "jsLe (jsSum (map f rs)) (jsAdd (jsSum (map f rs)) (Finite c))"
      using ih(2,3) c(2) by (rule jsAdd_increasing)
    with ih(4) have "jsLe (jsSum (map f (filter P rs))) (jsAdd (jsSum (map f rs)) (Finite c))"
      by (rule jsLe_trans)
    then show ?thesis
      using full ih(1) False by (simp add: jsSum_snoc c)
  qed
qed

lemma noOverflow_filter:
  assumes "\<forall>r\<in>set rs. isFinite (f r) \<and> 0 \<le> finiteValue (f r)" and "noOverflow f rs"
  shows "noOverflow f (filter P rs)"
  using sums_of_filter [OF assms(1), of P] assms(2) unfolding noOverflow_def
  by (cases "jsSum (map f (filter P rs))"; cases "jsSum (map f rs)") simp_all

lemma validCounters_pairs:
  "validCounters r \<Longrightarrow> validPair (black_outbound_count r) (total_outbound_count r)"
  "validCounters r \<Longrightarrow> validPair (black_pickup_count r) (total_pickup_count r)"
  "validCounters r \<Longrightarrow> validPair (black_pay_count r) (total_pay_count r)"
  "validCounters r \<Longrightarrow> validPair (black_complain_count r) (total_complain_count r)"
  by (simp_all add: validCounters_def)

lemma validCounters_totals:
  "validCounters r \<Longrightarrow>
     isFinite (total_outbound_count r) \<and> 0 \<le> finiteValue (total_outbound_count r)"
  "validCounters r \<Longrightarrow>
     isFinite (total_pickup_count r) \<and> 0 \<le> finiteValue (total_pickup_count r)"
  by (auto simp: validCounters_def validPair_def)

lemma okSums_sumsOf:
  assumes v: "\<forall>r\<in>set rs. validCounters r"
    and o: "noOverflow total_outbound_count rs" and p: "noOverflow total_pickup_count rs"
  shows "okSums (sumsOf (filter P rs))"
proof -
  have fo: "isFinite (jsSum (map total_outbound_count (filter P rs)))"
    using noOverflow_filter [OF _ o, of P] v by (simp add: validCounters_totals noOverflow_def)
  have fp: "isFinite (jsSum (map total_pickup_count (filter P rs)))"
    using noOverflow_filter [OF _ p, of P] v by (simp add: validCounters_totals noOverflow_def)
  have "validPair (jsSum (map black_outbound_count (filter P rs)))
      (jsSum (map total_outbound_count (filter P rs)))"
    using v fo by (intro validPair_sums) (simp_all add: validCounters_pairs)
  moreover have "validPair (jsSum (map black_pickup_count (filter P rs)))
      (jsSum (map total_pickup_count (filter P rs)))"
    using v fp by (intro validPair_sums) (simp_all add: validCounters_pairs)
  ultimately show ?thesis
    by (simp add: okSums_def sumsOf_def)
qed

lemma okSums_rows:
  "okSums s \<Longrightarrow> inPercentRange (blackOutboundRate (groupRow (k, s)))
     \<and> inPercentRange (blackPickupRate (groupRow (k, s)))"
  "okSums s \<Longrightarrow> inPercentRange (blackOutboundRate (provinceRow (k, s)))
     \<and> inPercentRange (blackPickupRate (provinceRow (k, s)))"
  "okSums s \<Longrightarrow> inPercentRange (blackOutboundRate (accountRow (k, s)))
     \<and> inPercentRange (blackPickupRate (accountRow (k, s)))"
  "okSums (sumsPart b) \<Longrightarrow> inPercentRange (blackOutboundRate (accountProvinceRow b))
     \<and> inPercentRange (blackPickupRate (accountProvinceRow b))"
  by (simp_all add: okSums_def groupRow_def provinceRow_def accountRow_def accountProvinceRow_def
      sumsPart_def rate_bounds)

lemma valid_filterByGroup:
  "\<forall>r\<in>set rs. validCounters r \<Longrightarrow> \<forall>r\<in>set (filterByGroup rs g). validCounters r"
  by (simp add: filterByGroup_def)

lemma valid_filterByAccount:
  "\<forall>r\<in>set rs. validCounters r \<Longrightarrow> \<forall>r\<in>set (filterByAccount rs a). validCounters r"
  by (simp add: filterByAccount_def)

lemma noOverflow_filterByGroup:
  "\<forall>r\<in>set rs. validCounters r \<Longrightarrow> noOverflow total_outbound_count rs \<Longrightarrow>
     noOverflow total_outbound_count (filterByGroup rs g)"
  "\<forall>r\<in>set rs. validCounters r \<Longrightarrow> noOverflow total_pickup_count rs \<Longrightarrow>
     noOverflow total_pickup_count (filterByGroup rs g)"
  by (simp_all add: filterByGroup_def noOverflow_filter validCounters_totals)

lemma noOverflow_filterByAccount:
  "\<forall>r\<in>set rs. validCounters r \<Longrightarrow> noOverflow total_outbound_count rs \<Longrightarrow>
     noOverflow total_outbound_count (filterByAccount rs a)"
  "\<forall>r\<in>set rs. validCounters r \<Longrightarrow> noOverflow total_pickup_count rs \<Longrightarrow>
     noOverflow total_pickup_count (filterByAccount rs a)"
  by (simp_all add: filterByAccount_def noOverflow_filter validCounters_totals)

lemma accountProvince_sums_set:
  "b \<in> snd ` set (accountProvinceMap rs a) \<Longrightarrow>
     \<exists>k. sumsPart b = sumsOf (filter (\<lambda>r. accountProvinceKey r = k) (filterByAccount rs a))"
proof -
  assume "b \<in> snd ` set (accountProvinceMap rs a)"
  then have "sumsPart b \<in> set (map (\<lambda>e. sumsPart (snd e)) (accountProvinceMap rs a))"
    by auto
  then show ?thesis
    unfolding accountProvinceMap_sums by auto
qed

text \<open>
  C8, as amended. For every list of records in which every row has integer counters with
  \<open>0 <= black <= total\<close> for each counter pair, and in which the sum of each total counter
  over all records is a finite number (no overflow to \<open>Infinity\<close>), every rate of every
  reduction (with any filter argument) lies in the closed interval from 0 to 100. Below the
  overflow the sums may be rounded: rounding keeps their order.
\<close>

theorem C8_rate_bounds:
  assumes valid: "\<forall>r\<in>set rs. validCounters r"
    and so: "noOverflow total_outbound_count rs" and sp: "noOverflow total_pickup_count rs"
    and sy: "noOverflow total_pay_count rs" and sc: "noOverflow total_complain_count rs"
  shows "inPercentRange (blackOutboundRate (calculateOverallStats rs))
     \<and> inPercentRange (blackPickupRate (calculateOverallStats rs))
     \<and> inPercentRange (blackPayRate (calculateOverallStats rs))
     \<and> inPercentRange (blackOutboundRate (calculateOverallStatsExt rs))
     \<and> inPercentRange (blackPickupRate (calculateOverallStatsExt rs))
     \<and> inPercentRange (blackPayRate (calculateOverallStatsExt rs))
     \<and> inPercentRange (blackComplainRate (calculateOverallStatsExt rs))
     \<and> (\<forall>row\<in>set (calculateGroupStats rs).
           inPercentRange (blackOutboundRate row) \<and> inPercentRange (blackPickupRate row))
     \<and> (\<forall>row\<in>set (calculateProvinceStats rs g).
           inPercentRange (blackOutboundRate row) \<and> inPercentRange (blackPickupRate row))
     \<and> (\<forall>row\<in>set (calculateAccountStats rs).
           inPercentRange (blackOutboundRate row) \<and> inPercentRange (blackPickupRate row))
     \<and> (\<forall>row\<in>set (calculateAccountProvinceStats rs a).
           inPercentRange (blackOutboundRate row) \<and> inPercentRange (blackPickupRate row))"
proof -
  have out: "validPair (jsSum (map black_outbound_count rs)) (jsSum (map total_outbound_count rs))"
    using valid so [unfolded noOverflow_def]
    by (intro validPair_sums) (simp_all add: validCounters_pairs)
  have pick: "validPair (jsSum (map black_pickup_count rs)) (jsSum (map total_pickup_count rs))"
    using valid sp [unfolded noOverflow_def]
    by (intro validPair_sums) (simp_all add: validCounters_pairs)
  have pay: "validPair (jsSum (map black_pay_count rs)) (jsSum (map total_pay_count rs))"
    using valid sy [unfolded noOverflow_def]
    by (intro validPair_sums) (simp_all add: validCounters_pairs)
  have comp: "validPair (jsSum (map black_complain_count rs)) (jsSum (map total_complain_count rs))"
    using valid sc [unfolded noOverflow_def]
    by (intro validPair_sums) (simp_all add: validCounters_pairs)
  have o: "inPercentRange (blackOutboundRate (calculateOverallStats rs))"
    "inPercentRange (blackPickupRate (calculateOverallStats rs))"
    "inPercentRange (blackPayRate (calculateOverallStats rs))"
    unfolding overall_rates overall_sums
    by (rule rate_bounds [OF out] rate_bounds [OF pick] rate_bounds [OF pay])+
  have e: "inPercentRange (blackOutboundRate (calculateOverallStatsExt rs))"
    "inPercentRange (blackPickupRate (calculateOverallStatsExt rs))"
    "inPercentRange (blackPayRate (calculateOverallStatsExt rs))"
    "inPercentRange (blackComplainRate (calculateOverallStatsExt rs))"
    unfolding overallExt_rates overallExt_sums
    by (rule rate_bounds [OF out] rate_bounds [OF pick] rate_bounds [OF pay] rate_bounds [OF comp])+
  have r1: "\<forall>row\<in>set (calculateGroupStats rs).
      inPercentRange (blackOutboundRate row) \<and> inPercentRange (blackPickupRate row)"
    unfolding group_rows_set
    by (intro ballI, elim imageE, hypsubst, rule okSums_rows, rule okSums_sumsOf [OF valid so sp])
  have r2: "\<forall>row\<in>set (calculateProvinceStats rs g).
      inPercentRange (blackOutboundRate row) \<and> inPercentRange (blackPickupRate row)"
    unfolding province_rows_set
    by (intro ballI, elim imageE, hypsubst, rule okSums_rows,
        rule okSums_sumsOf [OF valid_filterByGroup [OF valid] noOverflow_filterByGroup(1) [OF valid so]
          noOverflow_filterByGroup(2) [OF valid sp]])
  have r3: "\<forall>row\<in>set (calculateAccountStats rs).
      inPercentRange (blackOutboundRate row) \<and> inPercentRange (blackPickupRate row)"
    unfolding account_rows_set
    by (intro ballI, elim imageE, hypsubst, rule okSums_rows, rule okSums_sumsOf [OF valid so sp])
  have r4: "\<forall>row\<in>set (calculateAccountProvinceStats rs a).
      inPercentRange (blackOutboundRate row) \<and> inPercentRange (blackPickupRate row)"
  proof
    fix row
    assume "row \<in> set (calculateAccountProvinceStats rs a)"
    then obtain b where b: "b \<in> snd ` set (accountProvinceMap rs a)" and row: "row = accountProvinceRow b"
      unfolding results_permuted by auto
    from accountProvince_sums_set [OF b] obtain k where
      "sumsPart b = sumsOf (filter (\<lambda>r. accountProvinceKey r = k) (filterByAccount rs a))" ..
    then have "okSums (sumsPart b)"
      using okSums_sumsOf [OF valid_filterByAccount [OF valid] noOverflow_filterByAccount(1) [OF valid so]
          noOverflow_filterByAccount(2) [OF valid sp]]
      by simp
    then show "inPercentRange (blackOutboundRate row) \<and> inPercentRange (blackPickupRate row)"
      unfolding row by (rule okSums_rows(4))
  qed
  from o e r1 r2 r3 r4 show ?thesis
    by (intro conjI)
qed

text \<open>Witness for C8: two valid records, one of them fully blacklisted.\<close>

theorem C8_rate_bounds_witness:
  "validCounters (mkRecord ''a1'' ''P1'' ''31'' 10 1 4 1 2 1)
   \<and> validCounters (mkRecord ''a2'' ''P1'' ''32'' 10 10 0 0 0 0)
   \<and> noOverflow total_outbound_count
        [mkRecord ''a1'' ''P1'' ''31'' 10 1 4 1 2 1, mkRecord ''a2'' ''P1'' ''32'' 10 10 0 0 0 0]
   \<and> map blackOutboundRate (calculateGroupStats
        [mkRecord ''a1'' ''P1'' ''31'' 10 1 4 1 2 1, mkRecord ''a2'' ''P1'' ''32'' 10 10 0 0 0 0])
      = [Ratio 10, Ratio 100]
   \<and> inPercentRange (Ratio 10) \<and> inPercentRange (Ratio 100)
   \<and> blackOutboundRate (calculateOverallStats
        [mkRecord ''a1'' ''P1'' ''31'' 10 1 4 1 2 1, mkRecord ''a2'' ''P1'' ''32'' 10 10 0 0 0 0])
      = Ratio 55
   \<and> inPercentRange (Ratio 55)"
proof -
  have v: "\<forall>r\<in>set [mkRecord ''a1'' ''P1'' ''31'' 10 1 4 1 2 1, mkRecord ''a2'' ''P1'' ''32'' 10 10 0 0 0 0].
      validCounters r"
    by (simp add: validCounters_def validPair_def mkRecord_def)
  have s: "noOverflow total_outbound_count
        [mkRecord ''a1'' ''P1'' ''31'' 10 1 4 1 2 1, mkRecord ''a2'' ''P1'' ''32'' 10 10 0 0 0 0]"
    "noOverflow total_pickup_count
        [mkRecord ''a1'' ''P1'' ''31'' 10 1 4 1 2 1, mkRecord ''a2'' ''P1'' ''32'' 10 10 0 0 0 0]"
    "noOverflow total_pay_count
        [mkRecord ''a1'' ''P1'' ''31'' 10 1 4 1 2 1, mkRecord ''a2'' ''P1'' ''32'' 10 10 0 0 0 0]"
    "noOverflow total_complain_count
        [mkRecord ''a1'' ''P1'' ''31'' 10 1 4 1 2 1, mkRecord ''a2'' ''P1'' ''32'' 10 10 0 0 0 0]"
    by (simp_all add: noOverflow_def jsSum_def mkRecord_def roundToDouble_exact)
  show ?thesis
    using v s(1) C8_rate_bounds [OF v s, of None None]
    by (simp add: eval_defs)
qed

lemma double_2_1023: "roundToDouble (2 ^ 1023) = Finite (2 ^ 1023)"
proof -
  have bl: "bitLength (2 ^ 1023) = Suc 1023"
    by (rule bitLength_unique) simp_all
  have e: "Suc 1023 - 53 = 971" by simp
  have p: "(2::nat) ^ 1023 = 2 ^ 52 * 2 ^ 971"
    unfolding power_add [symmetric] by simp
  have d: "(2::nat) ^ 1023 div 2 ^ 971 = 2 ^ 52" "(2::nat) ^ 1023 mod 2 ^ 971 = 0"
    unfolding p by simp_all
  have n: "nearest (2 ^ 1023) = 2 ^ 1023"
    unfolding nearest_def Let_def bl e d by (simp add: p)
  have big: "\<not> (2::int) ^ 1023 < 2 ^ 53" "\<not> (2::nat) ^ 1024 \<le> 2 ^ 1023"
    by simp_all
  have nn: "nat (2 ^ 1023) = 2 ^ 1023"
    by simp
  show ?thesis
    using big by (simp only: roundToDouble_nat [of "2 ^ 1023", OF zero_le_power [OF zero_le_numeral]]
        nn n if_False of_nat_power of_nat_numeral)
qed

lemma overflow_2_1024: "roundToDouble (2 ^ 1023 + 2 ^ 1023) = PosInfinity"
  by (rule roundToDouble_overflow) simp

text \<open>
  Counterexample to C8 as stated. A record with 1 outbound call and a blacklisted count of
  \<open>-1\<close> (which \<open>parseInt\<close> yields for the field \<open>-1\<close>) satisfies \<open>black <= total\<close> in every
  pair, and its outbound rate is \<open>-100\<close>. A record whose two outbound counters are
  \<open>Infinity\<close> (digit strings beyond the range of the doubles) satisfies it too, and its rate
  is \<open>NaN\<close>: infinity over infinity. So do two records whose outbound counters are all
  \<open>2^1023\<close>, a finite integer: both sums overflow, and the rate is \<open>NaN\<close> again.
\<close>

theorem C8_out_of_range_counterexample:
  "blackAtMostTotal (mkRecord ''a1'' ''P1'' ''31'' 1 (- 1) 0 0 0 0)
   \<and> blackOutboundRate (calculateOverallStats [mkRecord ''a1'' ''P1'' ''31'' 1 (- 1) 0 0 0 0])
      = Ratio (- 100)
   \<and> map blackOutboundRate (calculateGroupStats [mkRecord ''a1'' ''P1'' ''31'' 1 (- 1) 0 0 0 0])
      = [Ratio (- 100)]
   \<and> \<not> inPercentRange (Ratio (- 100))
   \<and> blackAtMostTotal (mkOutbound ''a1'' ''P1'' ''31'' PosInfinity PosInfinity)
   \<and> blackOutboundRate (calculateOverallStats [mkOutbound ''a1'' ''P1'' ''31'' PosInfinity PosInfinity])
      = RatioNaN
   \<and> validCounters (mkRecord ''a1'' ''P1'' ''31'' (2 ^ 1023) (2 ^ 1023) 0 0 0 0)
   \<and> blackOutboundRate (calculateOverallStats
        [mkRecord ''a1'' ''P1'' ''31'' (2 ^ 1023) (2 ^ 1023) 0 0 0 0,
         mkRecord ''a2'' ''P1'' ''31'' (2 ^ 1023) (2 ^ 1023) 0 0 0 0])
      = RatioNaN
   \<and> \<not> inPercentRange RatioNaN"
proof -
  have neg: "blackAtMostTotal (mkRecord ''a1'' ''P1'' ''31'' 1 (- 1) 0 0 0 0)"
    "blackOutboundRate (calculateOverallStats [mkRecord ''a1'' ''P1'' ''31'' 1 (- 1) 0 0 0 0])
      = Ratio (- 100)"
    "map blackOutboundRate (calculateGroupStats [mkRecord ''a1'' ''P1'' ''31'' 1 (- 1) 0 0 0 0])
      = [Ratio (- 100)]"
    "blackAtMostTotal (mkOutbound ''a1'' ''P1'' ''31'' PosInfinity PosInfinity)"
    "blackOutboundRate (calculateOverallStats [mkOutbound ''a1'' ''P1'' ''31'' PosInfinity PosInfinity])
      = RatioNaN"
    by (simp_all add: eval_defs mkOutbound_def blackAtMostTotal_def)
  have v: "validCounters (mkRecord ''a1'' ''P1'' ''31'' (2 ^ 1023) (2 ^ 1023) 0 0 0 0)"
    by (simp add: validCounters_def validPair_def mkRecord_def)
  have s: "jsSum [Finite (2 ^ 1023), Finite (2 ^ 1023)] = PosInfinity"
    unfolding jsSum_def foldl.simps jsAdd.simps add_0 double_2_1023 overflow_2_1024 ..
  have m: "map black_outbound_count
        [mkRecord ''a1'' ''P1'' ''31'' (2 ^ 1023) (2 ^ 1023) 0 0 0 0,
         mkRecord ''a2'' ''P1'' ''31'' (2 ^ 1023) (2 ^ 1023) 0 0 0 0]
      = [Finite (2 ^ 1023), Finite (2 ^ 1023)]"
    "map total_outbound_count
        [mkRecord ''a1'' ''P1'' ''31'' (2 ^ 1023) (2 ^ 1023) 0 0 0 0,
         mkRecord ''a2'' ''P1'' ''31'' (2 ^ 1023) (2 ^ 1023) 0 0 0 0]
      = [Finite (2 ^ 1023), Finite (2 ^ 1023)]"
    unfolding mkRecord_def list.map by (simp_all only: BlacklistRecord.simps)
  have big: "blackOutboundRate (calculateOverallStats
        [mkRecord ''a1'' ''P1'' ''31'' (2 ^ 1023) (2 ^ 1023) 0 0 0 0,
         mkRecord ''a2'' ''P1'' ''31'' (2 ^ 1023) (2 ^ 1023) 0 0 0 0])
      = RatioNaN"
    unfolding overall_rates overall_sums m s by (simp add: rate_def)
  from neg v big show ?thesis
    by simp
qed

lemma foldl_nines:
  "foldl (\<lambda>acc c. acc * 10 + ((of_char c :: nat) - 48)) acc (replicate k (CHR ''9'')) =
     acc * 10 ^ k + (10 ^ k - 1)"
proof (induction k arbitrary: acc)
  case 0
  show ?case by simp
next
  case (Suc k)
  have "(1::nat) \<le> 10 ^ k" by simp
  then have "(acc * 10 + 9) * 10 ^ k + (10 ^ k - 1) = acc * (10 * 10 ^ k) + (10 * 10 ^ k - 1)"
    by (simp add: algebra_simps)
  then show ?case
    by (simp add: Suc.IH)
qed

lemma decimalValue_nines: "decimalValue (replicate k (CHR ''9'')) = 10 ^ k - 1"
  using foldl_nines [of 0 k] by (simp add: decimalValue_def)

lemma nines_overflow: "roundToDouble (int (decimalValue (replicate 309 (CHR ''9'')))) = PosInfinity"
proof -
  have "(2::int) ^ 1024 \<le> 10 ^ 309 - 1"
    by simp
  then have "2 ^ 1024 \<le> int (decimalValue (replicate 309 (CHR ''9'')))"
    by (simp add: decimalValue_nines)
  then show ?thesis
    by (rule roundToDouble_overflow)
qed


section \<open>The parser\<close>

lemma trimStart_drop: "\<exists>n. trimStart s = drop n s"
proof (induction s rule: trimStart.induct)
  case (1 s)
  show ?case
  proof (cases "wsLen s = 0 \<or> s = []")
    case True
    then have "trimStart s = drop 0 s"
      by (simp add: trimStart.simps)
    then show ?thesis by blast
  next
    case False
    with "1.IH" obtain n where "trimStart (drop (wsLen s) s) = drop n (drop (wsLen s) s)"
      by blast
    with False have "trimStart s = drop (n + wsLen s) s"
      by (simp add: trimStart.simps [of s])
    then show ?thesis by blast
  qed
qed

lemma set_trimStart: "set (trimStart s) \<subseteq> set s"
proof -
  obtain n where "trimStart s = drop n s"
    using trimStart_drop by blast
  then show ?thesis
    by (simp add: set_drop_subset)
qed

lemma radixDigit_10: "\<not> isDecDigit c \<Longrightarrow> radixDigit 10 c = None"
  by (auto simp: radixDigit_def isDecDigit_def Let_def)

lemma zero_isDecDigit: "isDecDigit CHR ''0''"
  by (simp add: isDecDigit_def)

lemma parseInt_not_numeric:
  assumes "\<not> startsNumeric s"
  shows "parseInt s = NaN"
proof -
  define S where "S = trimStart s"
  define S1 where "S1 = (if take 1 S = ''+'' \<or> take 1 S = ''-'' then drop 1 S else S)"
  have "startsNumeric s = (case S1 of [] \<Rightarrow> False | c # _ \<Rightarrow> isDecDigit c)"
    by (simp only: startsNumeric_def S_def S1_def Let_def)
  with assms have nd: "case S1 of [] \<Rightarrow> True | c # _ \<Rightarrow> \<not> isDecDigit c"
    by (cases S1) simp_all
  have nohex: "\<not> (take 2 S1 = ''0x'' \<or> take 2 S1 = ''0X'')"
    using nd zero_isDecDigit by (cases S1) auto
  have "leadingDigits 10 S1 = []"
    using nd by (cases S1) (simp_all add: radixDigit_10)
  then show ?thesis
    using nohex unfolding parseInt_def Let_def S_def [symmetric] S1_def [symmetric]
    by simp
qed

lemma parseInt_no_minus:
  assumes "CHR ''-'' \<notin> set s"
  shows "parseInt s = NaN \<or> nonNegative (parseInt s)"
proof -
  have "CHR ''-'' \<notin> set (trimStart s)"
    using assms set_trimStart by blast
  then have "take 1 (trimStart s) \<noteq> ''-''"
    by (cases "trimStart s") auto
  then show ?thesis
    unfolding parseInt_def Let_def
    by (simp add: roundToDouble_nonNegative)
qed

lemma undefined_not_numeric: "\<not> startsNumeric ''undefined''"
  by (simp add: startsNumeric_def trimStart.simps wsLen_def isDecDigit_def Let_def)

lemma parseIntOrZero_not_NaN: "parseIntOrZero v \<noteq> NaN"
  by (simp add: parseIntOrZero_def Let_def)

lemma parseIntOrZero_absent: "parseIntOrZero None = Finite 0"
  using parseInt_not_numeric [OF undefined_not_numeric]
  by (simp add: parseIntOrZero_def toString_def)

lemma parseIntOrZero_not_numeric: "\<not> startsNumeric s \<Longrightarrow> parseIntOrZero (Some s) = Finite 0"
  by (simp add: parseIntOrZero_def toString_def parseInt_not_numeric)

lemma parseIntOrZero_no_minus: "CHR ''-'' \<notin> set s \<Longrightarrow> nonNegative (parseIntOrZero (Some s))"
  using parseInt_no_minus [of s]
  by (auto simp: parseIntOrZero_def toString_def Let_def)

text \<open>A text of decimal digits is read in full, in base 10.\<close>

lemma wsLen_digit: "isDecDigit c \<Longrightarrow> wsLen (c # cs) = 0"
  by (auto simp: wsLen_def isDecDigit_def Let_def)

lemma trimStart_digit: "isDecDigit c \<Longrightarrow> trimStart (c # cs) = c # cs"
  by (simp add: trimStart.simps [of "c # cs"] wsLen_digit)

lemma radixDigit_decimal: "isDecDigit c \<Longrightarrow> radixDigit 10 c = Some ((of_char c :: nat) - 48)"
  by (auto simp: radixDigit_def isDecDigit_def Let_def)

lemma leadingDigits_decimal:
  "list_all isDecDigit s \<Longrightarrow> leadingDigits 10 s = map (\<lambda>c. (of_char c :: nat) - 48) s"
  by (induction s) (simp_all add: radixDigit_decimal)

lemma digitsValue_decimal:
  "digitsValue 10 (map (\<lambda>c. (of_char c :: nat) - 48) s) = decimalValue s"
  by (simp add: digitsValue_def decimalValue_def foldl_map)

lemma not_digit_chars:
  "\<not> isDecDigit CHR ''-''" "\<not> isDecDigit CHR ''+''" "\<not> isDecDigit CHR ''x''" "\<not> isDecDigit CHR ''X''"
  by (simp_all add: isDecDigit_def)

lemma parseInt_decimal:
  assumes "s \<noteq> []" and d: "list_all isDecDigit s"
  shows "parseInt s = roundToDouble (int (decimalValue s))"
proof -
  from assms obtain c cs where s: "s = c # cs" and c: "isDecDigit c" and cs: "list_all isDecDigit cs"
    by (cases s) auto
  have t: "trimStart s = s"
    unfolding s using c by (rule trimStart_digit)
  have sign: "take 1 s \<noteq> ''-''" "take 1 s \<noteq> ''+''"
    using c not_digit_chars by (auto simp: s)
  have nohex: "take 2 s \<noteq> ''0x''" "take 2 s \<noteq> ''0X''"
    using cs not_digit_chars by (cases cs; auto simp: s)+
  have z: "leadingDigits 10 s = map (\<lambda>c. (of_char c :: nat) - 48) s"
    using d by (rule leadingDigits_decimal)
  then have "leadingDigits 10 s \<noteq> []"
    by (simp add: s)
  then show ?thesis
    unfolding parseInt_def Let_def t
    using sign nohex by (simp add: z digitsValue_decimal)
qed

lemma parseIntOrZero_decimal:
  assumes "s \<noteq> []" and "list_all isDecDigit s"
  shows "parseIntOrZero (Some s) = roundToDouble (int (decimalValue s))"
proof -
  have p: "parseInt s = roundToDouble (int (decimalValue s))"
    using assms by (rule parseInt_decimal)
  show ?thesis
  proof (cases "parseInt s = Finite 0")
    case True
    then show ?thesis
      using p by (simp add: parseIntOrZero_def toString_def)
  next
    case False
    then show ?thesis
      using p roundToDouble_not_NaN [of "int (decimalValue s)"]
      by (simp add: parseIntOrZero_def toString_def Let_def)
  qed
qed

lemma counterOfField_parse: "counterOfField (parseIntOrZero v) v"
  by (simp add: counterOfField_def parseIntOrZero_not_NaN parseIntOrZero_absent
      parseIntOrZero_not_numeric parseIntOrZero_no_minus parseIntOrZero_decimal)

lemma counters_rowToRecord:
  "\<forall>(f, sel)\<in>set counterFields. sel (rowToRecord row) = parseIntOrZero (row f)"
  by (simp add: counterFields_def rowToRecord_def)

text \<open>
  C7, as amended. For every input text, \<open>parseCSVData\<close> returns without error: no record if
  the row splitting reports an error, and otherwise one record for each data row, in order.
  Every counter of such a record is a number and never \<open>NaN\<close>: 0 when the column is absent
  from the row and when the field's text does not begin (after white space and an optional
  sign) with a digit; not negative whenever the text holds no minus sign; and for a text of
  decimal digits only, the double nearest to its value, which is that integer below \<open>2^53\<close>
  and \<open>Infinity\<close> beyond the range of the doubles.
\<close>

theorem C7_counters:
  "(errors (papaParse csvText) \<noteq> [] \<longrightarrow> parseCSVData papaParse csvText = [])
   \<and> (errors (papaParse csvText) = [] \<longrightarrow>
        length (parseCSVData papaParse csvText) = length (data (papaParse csvText))
        \<and> (\<forall>i<length (data (papaParse csvText)).
              \<forall>(f, sel)\<in>set counterFields.
                 counterOfField (sel (parseCSVData papaParse csvText ! i))
                   ((data (papaParse csvText) ! i) f)))"
proof (intro conjI impI allI)
  assume "errors (papaParse csvText) \<noteq> []"
  then show "parseCSVData papaParse csvText = []"
    by (simp add: parseCSVData_def Let_def)
next
  assume "errors (papaParse csvText) = []"
  then show "length (parseCSVData papaParse csvText) = length (data (papaParse csvText))"
    by (simp add: parseCSVData_def Let_def)
next
  fix i
  assume e: "errors (papaParse csvText) = []" and i: "i < length (data (papaParse csvText))"
  then have "parseCSVData papaParse csvText ! i = rowToRecord (data (papaParse csvText) ! i)"
    by (simp add: parseCSVData_def Let_def)
  then show "\<forall>(f, sel)\<in>set counterFields.
      counterOfField (sel (parseCSVData papaParse csvText ! i)) ((data (papaParse csvText) ! i) f)"
    using counters_rowToRecord [of "data (papaParse csvText) ! i"]
    by (auto simp: counterOfField_parse)
qed

text \<open>
  Witness for C7: the example input has one row; it has no \<open>black_pay_count\<close> column, and its
  \<open>black_outbound_count\<close> is \<open>abc\<close>.
\<close>

theorem C7_counters_witness:
  "errors (papaExample exampleCsv) = []
   \<and> data (papaExample exampleCsv) = [exampleRow]
   \<and> exampleRow ''black_pay_count'' = None
   \<and> black_pay_count (parseCSVData papaExample exampleCsv ! 0) = Finite 0
   \<and> exampleRow ''black_outbound_count'' = Some ''abc''
   \<and> \<not> startsNumeric ''abc''
   \<and> black_outbound_count (parseCSVData papaExample exampleCsv ! 0) = Finite 0"
proof -
  have e: "errors (papaExample exampleCsv) = []" "data (papaExample exampleCsv) = [exampleRow]"
    by (simp_all add: papaExample_def)
  have r: "exampleRow ''black_pay_count'' = None" "exampleRow ''black_outbound_count'' = Some ''abc''"
    by (simp_all add: exampleRow_def)
  have n: "\<not> startsNumeric ''abc''"
    by (simp add: startsNumeric_def trimStart.simps wsLen_def isDecDigit_def Let_def)
  show ?thesis
    using e r n C7_counters [of papaExample exampleCsv]
    by (auto simp: counterFields_def counterOfField_def)
qed

text \<open>
  Counterexample to C7 as stated, on the row of the example input: the field \<open>-5\<close> becomes
  the negative counter \<open>-5\<close>; the fields \<open>12abc\<close> and \<open>0x1A\<close>, which are not numbers, become
  12 and 26 and not 0 (only \<open>abc\<close> becomes 0); and the field of 309 nines becomes
  \<open>Infinity\<close>, which is not an integer.
\<close>

theorem C7_counters_counterexample:
  "map total_outbound_count (parseCSVData papaExample exampleCsv) = [Finite (- 5)]
   \<and> map black_outbound_count (parseCSVData papaExample exampleCsv) = [Finite 0]
   \<and> map total_pickup_count (parseCSVData papaExample exampleCsv) = [Finite 12]
   \<and> map black_pickup_count (parseCSVData papaExample exampleCsv) = [Finite 26]
   \<and> map total_pay_count (parseCSVData papaExample exampleCsv) = [PosInfinity]"
proof -
  have p: "parseCSVData papaExample exampleCsv = [rowToRecord exampleRow]"
    by (simp add: parseCSVData_def papaExample_def)
  have small: "parseIntOrZero (Some ''-5'') = Finite (- 5)" "parseIntOrZero (Some ''abc'') = Finite 0"
    "parseIntOrZero (Some ''12abc'') = Finite 12" "parseIntOrZero (Some ''0x1A'') = Finite 26"
    by (simp_all add: parseIntOrZero_def toString_def parseInt_def trimStart.simps wsLen_def
        radixDigit_def digitsValue_def roundToDouble_def Let_def)
  have nines: "list_all isDecDigit (replicate 309 (CHR ''9''))" "replicate 309 (CHR ''9'') \<noteq> []"
    by (simp_all add: list_all_iff isDecDigit_def)
  have big: "parseIntOrZero (Some (replicate 309 (CHR ''9''))) = PosInfinity"
    using parseIntOrZero_decimal [OF nines(2) nines(1)] by (simp only: nines_overflow)
  show ?thesis
    unfolding p using small big
    by (simp add: rowToRecord_def exampleRow_def)
qed

section \<open>Batch mode\<close>

lemma fold_batchStep:
  "fold (batchStep papaParse) files acc =
     acc @ map (batchResultOf papaParse) (filter (parses papaParse) files)"
  by (induction files arbitrary: acc)
     (simp_all add: batchStep_def batchResultOf_def parses_def Let_def)

lemma filter_parses_empty:
  "filter (parses papaParse) files = [] \<longleftrightarrow> (\<forall>f\<in>set files. \<not> parses papaParse f)"
  by (simp add: filter_empty_conv)

text \<open>
  C10, as amended. For every non-empty list of uploaded files in batch mode, the batch holds
  exactly one result (the file name without its \<open>.csv\<close> ending, the overall statistics, the
  parsed records) for each file whose content parses into at least one record, in input order;
  the other files are dropped; and the batch is reported invalid (the alert, no state change)
  if and only if every file fails to parse.
\<close>

theorem C10_batch:
  assumes "files \<noteq> []"
  shows "handleUpload papaParse st files True =
           (if \<forall>f\<in>set files. \<not> parses papaParse f then (st, Some NoValidCsvData)
            else (st\<lparr>batchData_st :=
                         Some (map (batchResultOf papaParse) (filter (parses papaParse) files)),
                      data_st := None\<rparr>, None))
         \<and> (snd (handleUpload papaParse st files True) = Some NoValidCsvData
              \<longleftrightarrow> (\<forall>f\<in>set files. \<not> parses papaParse f))"
proof -
  obtain f fs where files: "files = f # fs"
    using assms by (cases files) auto
  have "handleUpload papaParse st files True =
      (if filter (parses papaParse) files = [] then (st, Some NoValidCsvData)
       else (st\<lparr>batchData_st :=
               Some (map (batchResultOf papaParse) (filter (parses papaParse) files)),
             data_st := None\<rparr>, None))"
    unfolding handleUpload_def files list.case
    by (simp only: fold_batchStep Let_def append_Nil length_0_conv map_is_Nil_conv if_True)
  then show ?thesis
    by (simp add: filter_parses_empty)
qed

lemma exampleCsv_parses:
  "parseCSVData papaExample exampleCsv = [rowToRecord exampleRow]"
  by (simp add: parseCSVData_def papaExample_def)

lemma empty_not_example: "[] \<noteq> exampleCsv"
  by (simp add: exampleCsv_def)

lemma empty_parses: "parseCSVData papaExample [] = []"
  using empty_not_example by (simp add: parseCSVData_def papaExample_def)

text \<open>Witness for C10: the example input and an empty file.\<close>

theorem C10_batch_witness:
  "[\<lparr>name = ''a.CSV'', content = exampleCsv\<rparr>, \<lparr>name = ''b.csv'', content = ''''\<rparr>] \<noteq> []
   \<and> parses papaExample \<lparr>name = ''a.CSV'', content = exampleCsv\<rparr>
   \<and> \<not> parses papaExample \<lparr>name = ''b.csv'', content = ''''\<rparr>
   \<and> handleUpload papaExample \<lparr>data_st = None, batchData_st = None\<rparr>
        [\<lparr>name = ''a.CSV'', content = exampleCsv\<rparr>, \<lparr>name = ''b.csv'', content = ''''\<rparr>] True =
      (\<lparr>data_st = None,
        batchData_st = Some [batchResultOf papaExample \<lparr>name = ''a.CSV'', content = exampleCsv\<rparr>]\<rparr>,
       None)
   \<and> fileName (batchResultOf papaExample \<lparr>name = ''a.CSV'', content = exampleCsv\<rparr>) = ''a''
   \<and> rawData (batchResultOf papaExample \<lparr>name = ''a.CSV'', content = exampleCsv\<rparr>)
       = [rowToRecord exampleRow]"
proof -
  have ne: "[\<lparr>name = ''a.CSV'', content = exampleCsv\<rparr>, \<lparr>name = ''b.csv'', content = ''''\<rparr>] \<noteq> []"
    by simp
  have p: "parses papaExample \<lparr>name = ''a.CSV'', content = exampleCsv\<rparr>"
    "\<not> parses papaExample \<lparr>name = ''b.csv'', content = ''''\<rparr>"
    by (simp_all add: parses_def exampleCsv_parses empty_parses)
  have fn: "fileName (batchResultOf papaExample \<lparr>name = ''a.CSV'', content = exampleCsv\<rparr>) = ''a''"
    by (simp add: batchResultOf_def removeCsvSuffix_def isCsvSuffix_def Let_def)
  have raw: "rawData (batchResultOf papaExample \<lparr>name = ''a.CSV'', content = exampleCsv\<rparr>)
       = [rowToRecord exampleRow]"
    by (simp add: batchResultOf_def exampleCsv_parses)
  show ?thesis
    using C10_batch [OF ne, of papaExample "\<lparr>data_st = None, batchData_st = None\<rparr>"] p fn raw
    by simp
qed

text \<open>
  Counterexample to C10 as stated: on the empty list no file parses (every file fails,
  vacuously), and \<open>handleUpload\<close> returns at its first line: nothing is reported and the
  state is unchanged.
\<close>

theorem C10_empty_batch_counterexample:
  "filter (parses papaExample) [] = []
   \<and> handleUpload papaExample \<lparr>data_st = None, batchData_st = None\<rparr> [] True =
       (\<lparr>data_st = None, batchData_st = None\<rparr>, None)"
  by (simp add: handleUpload_def)

end
